theory Spec2Isabelle
  imports Complex_Main "HOL-Library.Multiset" "HOL-Library.Log_Nat"
begin

section \<open>Conventions\<close>

text \<open>
  The development embeds the routing core of the repository: the circuit breaker
  (class \<open>CircuitBreaker\<close>, \<open>core/circuitBreaker.ts\<close>), the telemetry window (class
  \<open>Telemetry\<close>, \<open>core/telemetry.ts\<close>), the cost estimator (class \<open>CostEstimator\<close>,
  \<open>core/costs.ts\<close>), the routing policy (class \<open>RoutingPolicy\<close>, \<open>core/policy.ts\<close>) and
  the router (class \<open>Router\<close>, \<open>core/router.ts\<close>). Each definition below carries the
  name of the method it embeds.

  JavaScript numbers that count things or measure milliseconds (clock readings, latencies,
  failure counters, thresholds, window sizes) are integers (\<open>int\<close>). Prices, weights and
  budgets given by the caller are real numbers (\<open>real\<close>); costs, scores and the spent
  amount, which the program computes, are real numbers or \<open>NaN\<close> (\<open>jsnum\<close>). The
  quotient that \<open>Math.ceil\<close> turns into a token count is rounded to a double; the
  rounding of the other sums and products, and the infinities, are outside the model. An
  optional field is an \<open>option\<close>, with \<open>None\<close> for \<open>undefined\<close>. Every read of
  \<open>Date.now()\<close> and every draw of \<open>Math.random()\<close> is an explicit argument, so each
  function of the model is a function of its inputs and of what the environment answered.
\<close>

section \<open>Circuit breaker\<close>

datatype State = Closed | Open | HalfOpen

record CircuitOptions =
  failureThreshold :: int
  coolOffMs :: int

record Entry =
  state :: State
  consecutiveFailures :: int
  openedAt :: "int option"

record CircuitBreaker =
  options :: CircuitOptions
  map_cb :: "string \<rightharpoonup> Entry"

text \<open>The key of both stores is the string \<open>`${provider}::${modelType}`\<close>.\<close>

definition key :: "string \<Rightarrow> string \<Rightarrow> string" where
  "key provider modelType = provider @ ''::'' @ modelType"

text \<open>The entry \<open>{ state: 'closed', consecutiveFailures: 0 }\<close> used for an unseen key.\<close>

definition fresh_entry :: Entry where
  "fresh_entry = \<lparr>state = Closed, consecutiveFailures = 0, openedAt = None\<rparr>"

definition new_CircuitBreaker :: "CircuitOptions \<Rightarrow> CircuitBreaker" where
  "new_CircuitBreaker opts = \<lparr>options = opts, map_cb = Map.empty\<rparr>"

text \<open>
  \<open>isOpen\<close> reads the clock only when the entry is open; \<open>now\<close> is that reading. The test
  \<open>e.openedAt && now - e.openedAt >= coolOffMs\<close> is false for an absent \<open>openedAt\<close> and
  for the falsy reading \<open>0\<close>. The query returns its answer and the breaker, whose entry
  it may have promoted to half-open.
\<close>

definition isOpen :: "int \<Rightarrow> CircuitBreaker \<Rightarrow> string \<Rightarrow> string \<Rightarrow> bool \<times> CircuitBreaker" where
  "isOpen now cb provider modelType =
     (case map_cb cb (key provider modelType) of
        None \<Rightarrow> (False, cb)
      | Some e \<Rightarrow>
          if state e = Open then
            (case openedAt e of
               None \<Rightarrow> (True, cb)
             | Some t \<Rightarrow>
                 if t \<noteq> 0 \<and> now - t \<ge> coolOffMs (options cb)
                 then (False, cb\<lparr>map_cb := (map_cb cb)(key provider modelType \<mapsto> e\<lparr>state := HalfOpen\<rparr>)\<rparr>)
                 else (True, cb))
          else (False, cb))"

definition onSuccess :: "CircuitBreaker \<Rightarrow> string \<Rightarrow> string \<Rightarrow> CircuitBreaker" where
  "onSuccess cb provider modelType =
     (let k = key provider modelType;
          e = (case map_cb cb k of Some e0 \<Rightarrow> e0 | None \<Rightarrow> fresh_entry)
      in cb\<lparr>map_cb := (map_cb cb)(k \<mapsto> e\<lparr>state := Closed, consecutiveFailures := 0, openedAt := None\<rparr>)\<rparr>)"

text \<open>\<open>onFailure\<close> reads the clock when it opens the entry; \<open>now\<close> is that reading.\<close>

definition onFailure :: "int \<Rightarrow> CircuitBreaker \<Rightarrow> string \<Rightarrow> string \<Rightarrow> CircuitBreaker" where
  "onFailure now cb provider modelType =
     (let k = key provider modelType;
          e0 = (case map_cb cb k of Some e \<Rightarrow> e | None \<Rightarrow> fresh_entry);
          e1 = e0\<lparr>consecutiveFailures := consecutiveFailures e0 + 1\<rparr>;
          e2 = (if consecutiveFailures e1 \<ge> failureThreshold (options cb)
                then e1\<lparr>state := Open, openedAt := Some now\<rparr> else e1)
      in cb\<lparr>map_cb := (map_cb cb)(k \<mapsto> e2)\<rparr>)"

definition reset :: "CircuitBreaker \<Rightarrow> string \<Rightarrow> string \<Rightarrow> CircuitBreaker" where
  "reset cb provider modelType = cb\<lparr>map_cb := (map_cb cb)(key provider modelType := None)\<rparr>"

definition clearAll :: "CircuitBreaker \<Rightarrow> CircuitBreaker" where
  "clearAll cb = cb\<lparr>map_cb := Map.empty\<rparr>"

text \<open>A run of consecutive \<open>onFailure\<close> calls on one key, one clock reading per call.\<close>

definition failures :: "int list \<Rightarrow> CircuitBreaker \<Rightarrow> string \<Rightarrow> string \<Rightarrow> CircuitBreaker" where
  "failures ts cb provider modelType = foldl (\<lambda>c t. onFailure t c provider modelType) cb ts"

text \<open>
  The breakers a program can build: a new breaker, then any sequence of the public
  methods, at any clock readings.
\<close>

inductive reachable :: "CircuitOptions \<Rightarrow> CircuitBreaker \<Rightarrow> bool" for opts where
  r_new: "reachable opts (new_CircuitBreaker opts)"
| r_isOpen: "reachable opts cb \<Longrightarrow> reachable opts (snd (isOpen now cb p m))"
| r_onSuccess: "reachable opts cb \<Longrightarrow> reachable opts (onSuccess cb p m)"
| r_onFailure: "reachable opts cb \<Longrightarrow> reachable opts (onFailure now cb p m)"
| r_reset: "reachable opts cb \<Longrightarrow> reachable opts (reset cb p m)"
| r_clearAll: "reachable opts cb \<Longrightarrow> reachable opts (clearAll cb)"

text \<open>
  The invariant of the breakers a program can build: the options are those of the
  constructor, and an entry that is open or half-open has a counter at or above the
  threshold (opening does not reset the counter and promotion does not touch it).
\<close>

definition tripped_inv :: "CircuitOptions \<Rightarrow> CircuitBreaker \<Rightarrow> bool" where
  "tripped_inv opts cb \<longleftrightarrow>
     options cb = opts \<and>
     (\<forall>k e. map_cb cb k = Some e \<longrightarrow> state e \<noteq> Closed \<longrightarrow>
        failureThreshold opts \<le> consecutiveFailures e)"

section \<open>Telemetry\<close>

datatype Outcome = Success | Failure | Timeout

record TelemetryRecord =
  provider_rec :: string
  modelType_rec :: string
  latencyMs :: int
  timestamp :: int
  outcome :: Outcome

record TelemetryStats =
  count_stats :: nat
  success :: nat
  failure :: nat
  timeout :: nat
  p50Latency :: "int option"
  p95Latency :: "int option"

record Telemetry =
  windowSize :: int
  store :: "string \<rightharpoonup> TelemetryRecord list"

definition new_Telemetry :: "int \<Rightarrow> Telemetry" where
  "new_Telemetry w = \<lparr>windowSize = w, store = Map.empty\<rparr>"

text \<open>
  \<open>arr.splice(0, n)\<close> removes the first \<open>n\<close> elements, with \<open>n\<close> clamped to
  \<open>0 \<dots> arr.length\<close>.
\<close>

definition splice0 :: "int \<Rightarrow> 'a list \<Rightarrow> 'a list" where
  "splice0 n arr = drop (nat n) arr"

definition record_tel :: "Telemetry \<Rightarrow> TelemetryRecord \<Rightarrow> Telemetry" where
  "record_tel t rec =
     (let k = key (provider_rec rec) (modelType_rec rec);
          arr0 = (case store t k of None \<Rightarrow> [] | Some a \<Rightarrow> a);
          arr1 = arr0 @ [rec];
          arr2 = (if int (length arr1) > windowSize t
                  then splice0 (int (length arr1) - windowSize t) arr1 else arr1)
      in t\<lparr>store := (store t)(k \<mapsto> arr2)\<rparr>)"

text \<open>
  \<open>percentile\<close> picks the element at
  \<open>Math.min(length - 1, Math.max(0, Math.floor(p * (length - 1))))\<close>.
\<close>

definition percentile :: "int list \<Rightarrow> real \<Rightarrow> int option" where
  "percentile sortedLatencies p =
     (if length sortedLatencies = 0 then None
      else let idx = min (int (length sortedLatencies) - 1)
                         (max 0 \<lfloor>p * real_of_int (int (length sortedLatencies) - 1)\<rfloor>)
           in Some (sortedLatencies ! nat idx))"

definition getStats :: "Telemetry \<Rightarrow> string \<Rightarrow> string \<Rightarrow> TelemetryStats" where
  "getStats t provider modelType =
     (let arr = (case store t (key provider modelType) of None \<Rightarrow> [] | Some a \<Rightarrow> a);
          count = length arr
      in if count = 0
         then \<lparr>count_stats = 0, success = 0, failure = 0, timeout = 0,
               p50Latency = None, p95Latency = None\<rparr>
         else let latencies = sort (map latencyMs arr)
              in \<lparr>count_stats = count,
                   success = length (filter (\<lambda>a. outcome a = Success) arr),
                   failure = length (filter (\<lambda>a. outcome a = Failure) arr),
                   timeout = length (filter (\<lambda>a. outcome a = Timeout) arr),
                   p50Latency = percentile latencies 0.5,
                   p95Latency = percentile latencies 0.95\<rparr>)"

definition clear_tel :: "Telemetry \<Rightarrow> Telemetry" where
  "clear_tel t = t\<lparr>store := Map.empty\<rparr>"

text \<open>The ring stored for a key, empty for a key never recorded.\<close>

definition ring :: "Telemetry \<Rightarrow> string \<Rightarrow> TelemetryRecord list" where
  "ring t k = (case store t k of None \<Rightarrow> [] | Some a \<Rightarrow> a)"

definition rec_key :: "TelemetryRecord \<Rightarrow> string" where
  "rec_key rec = key (provider_rec rec) (modelType_rec rec)"

text \<open>A sequence of \<open>record\<close> calls, in order.\<close>

definition records :: "Telemetry \<Rightarrow> TelemetryRecord list \<Rightarrow> Telemetry" where
  "records t recs = foldl record_tel t recs"

text \<open>The \<open>n\<close> most recent elements of a list that grows at its end.\<close>

definition most_recent :: "nat \<Rightarrow> 'a list \<Rightarrow> 'a list" where
  "most_recent n xs = drop (length xs - n) xs"

text \<open>
  The index the specification gives for rank \<open>p\<close> in a window of \<open>n\<close> latencies:
  \<open>clamp(\<lfloor>p \<times> (n - 1)\<rfloor>, 0, n - 1)\<close>.
\<close>

definition clamp :: "int \<Rightarrow> int \<Rightarrow> int \<Rightarrow> int" where
  "clamp x lo hi = (if x < lo then lo else if hi < x then hi else x)"

definition spec_rank_index :: "real \<Rightarrow> nat \<Rightarrow> nat" where
  "spec_rank_index p n = nat (clamp \<lfloor>p * (real n - 1)\<rfloor> 0 (int n - 1))"

text \<open>A record with a given latency, as the test of \<open>tests/telemetry.test.js\<close> builds them.\<close>

definition sample :: "int \<Rightarrow> TelemetryRecord" where
  "sample l = \<lparr>provider_rec = ''p'', modelType_rec = ''T'', latencyMs = l, timestamp = 0,
               outcome = (if l mod 30 = 0 then Failure else Success)\<rparr>"

section \<open>Numbers\<close>

text \<open>
  A price, a cost, a score or a spent amount is a JavaScript number that can be \<open>NaN\<close>:
  the product of a number and \<open>undefined\<close> is \<open>NaN\<close>, and \<open>NaN\<close> spreads through sums,
  differences and products. A comparison with \<open>NaN\<close> is false.
\<close>

datatype jsnum = Num real | NaN

fun jadd :: "jsnum \<Rightarrow> jsnum \<Rightarrow> jsnum" where
  "jadd (Num x) (Num y) = Num (x + y)"
| "jadd a b = NaN"

fun jsub :: "jsnum \<Rightarrow> jsnum \<Rightarrow> jsnum" where
  "jsub (Num x) (Num y) = Num (x - y)"
| "jsub a b = NaN"

fun jmul :: "jsnum \<Rightarrow> jsnum \<Rightarrow> jsnum" where
  "jmul (Num x) (Num y) = Num (x * y)"
| "jmul a b = NaN"

text \<open>\<open>a > b\<close>\<close>

fun jgt :: "jsnum \<Rightarrow> jsnum \<Rightarrow> bool" where
  "jgt (Num x) (Num y) = (x > y)"
| "jgt a b = False"

text \<open>\<open>a <= b\<close>\<close>

fun jle :: "jsnum \<Rightarrow> jsnum \<Rightarrow> bool" where
  "jle (Num x) (Num y) = (x \<le> y)"
| "jle a b = False"

text \<open>
  The arguments of the functions below stand for double values. The quotient of two
  doubles is in general not a double: the machine returns the double nearest to it, ties
  to the even significand. \<open>round64\<close> is that rounding for binary64 (53 significant
  bits, least exponent \<open>-1022\<close>); \<open>expo x\<close> is \<open>\<lfloor>log\<^sub>2 |x|\<rfloor>\<close>. Where a quotient is
  passed to \<open>Math.ceil\<close> the rounding decides the result, and the model rounds.
\<close>

definition pow2 :: "int \<Rightarrow> real" where
  "pow2 e = (if 0 \<le> e then 2 ^ nat e else 1 / 2 ^ nat (- e))"

definition expo :: "real \<Rightarrow> int" where
  "expo x = (if 1 \<le> \<bar>x\<bar> then bitlen \<lfloor>\<bar>x\<bar>\<rfloor> - 1 else - bitlen (\<lceil>1 / \<bar>x\<bar>\<rceil> - 1))"

definition round_half_even :: "real \<Rightarrow> int" where
  "round_half_even r =
     (let f = \<lfloor>r\<rfloor> in
      if r - of_int f < 1 / 2 then f
      else if 1 / 2 < r - of_int f then f + 1
      else if even f then f else f + 1)"

definition round64 :: "real \<Rightarrow> real" where
  "round64 x =
     (if x = 0 then 0
      else let q = pow2 (max (expo x) (- 1022) - 52)
           in q * of_int (round_half_even (x / q)))"

section \<open>Cost estimator\<close>

record ModelCosts =
  input_rate :: real
  output_rate :: real

text \<open>
  Modelled from the spec: the price book \<open>costs.json\<close> that \<open>core/costs.ts\<close> imports is not
  among the sources. The specification describes it as a mapping from simulated model
  names to \<open>{input, output}\<close> rates in USD per 1000 tokens, with a required key
  \<open>"default"\<close> that provides the fallback rates. The book is a parameter of the model:
  \<open>default_costs\<close> is the entry under \<open>"default"\<close>, \<open>named_costs\<close> holds the other keys
  of the file.
\<close>

record PriceBook =
  default_costs :: ModelCosts
  named_costs :: "string \<rightharpoonup> ModelCosts"

text \<open>
  The imported book is a plain object, so \<open>this.costs[name]\<close> finds the keys of the file
  and, for a name that is not a key of the file, the properties every object inherits
  from \<open>Object.prototype\<close>. An inherited property is a function (or, for \<open>__proto__\<close>,
  the prototype object): it is truthy and has neither an \<open>input\<close> nor an \<open>output\<close>
  property.
\<close>

definition object_prototype_names :: "string list" where
  "object_prototype_names =
     [''constructor'', ''__proto__'', ''hasOwnProperty'', ''isPrototypeOf'',
      ''propertyIsEnumerable'', ''toLocaleString'', ''toString'', ''valueOf'',
      ''__defineGetter__'', ''__defineSetter__'', ''__lookupGetter__'', ''__lookupSetter__'']"

datatype price_entry = Rates ModelCosts | Inherited

text \<open>\<open>this.costs[name]\<close>; \<open>None\<close> is \<open>undefined\<close>.\<close>

definition costs_at :: "PriceBook \<Rightarrow> string \<Rightarrow> price_entry option" where
  "costs_at pb name =
     (if name = ''default'' then Some (Rates (default_costs pb))
      else case named_costs pb name of
             Some c \<Rightarrow> Some (Rates c)
           | None \<Rightarrow> if name \<in> set object_prototype_names then Some Inherited else None)"

text \<open>
  \<open>modelCosts.input\<close> and \<open>modelCosts.output\<close> as factors of a product: \<open>undefined\<close>
  for an inherited property, which makes the product \<open>NaN\<close>.
\<close>

fun input_of :: "price_entry \<Rightarrow> jsnum" where
  "input_of (Rates c) = Num (input_rate c)"
| "input_of Inherited = NaN"

fun output_of :: "price_entry \<Rightarrow> jsnum" where
  "output_of (Rates c) = Num (output_rate c)"
| "output_of Inherited = NaN"

record CostEstimateParams =
  promptChars :: real
  expectedOutputTokens :: "real option"
  simulatedModelName :: string
  charsPerToken :: "real option"
  requestFixedFeeUSD :: "real option"
  discountFactor :: "real option"

record CostEstimate =
  inputTokens :: real
  outputTokens :: real
  inputCostUSD :: jsnum
  outputCostUSD :: jsnum
  fixedFeeUSD :: real
  totalUSD :: jsnum
  simulatedModelName_est :: string

text \<open>
  \<open>Math.ceil(chars / charsPerToken)\<close>, with the quotient rounded to a double. For
  \<open>charsPerToken = 0\<close> JavaScript yields an infinity or \<open>NaN\<close>, which the model does not
  represent.
\<close>

definition estimateTokens :: "real \<Rightarrow> real \<Rightarrow> real" where
  "estimateTokens chars cpt = of_int \<lceil>round64 (chars / cpt)\<rceil>"

text \<open>\<open>this.costs[simulatedModelName] || this.costs.default\<close>\<close>

definition getModelCosts :: "PriceBook \<Rightarrow> string \<Rightarrow> price_entry" where
  "getModelCosts pb name =
     (case costs_at pb name of Some e \<Rightarrow> e | None \<Rightarrow> Rates (default_costs pb))"

definition estimateCost :: "PriceBook \<Rightarrow> CostEstimateParams \<Rightarrow> CostEstimate" where
  "estimateCost pb params =
     (let cpt = (case charsPerToken params of None \<Rightarrow> 4 | Some c \<Rightarrow> c);
          fee = (case requestFixedFeeUSD params of None \<Rightarrow> 0 | Some f \<Rightarrow> f);
          disc = (case discountFactor params of None \<Rightarrow> 1 | Some d \<Rightarrow> d);
          inTok = estimateTokens (promptChars params) cpt;
          outTok = (case expectedOutputTokens params of
                      None \<Rightarrow> max 1 (of_int \<lceil>inTok * 0.2\<rceil>)
                    | Some e \<Rightarrow> if e > 0 then e else max 1 (of_int \<lceil>inTok * 0.2\<rceil>));
          modelCosts = getModelCosts pb (simulatedModelName params);
          inCost = jmul (Num (inTok / 1000)) (input_of modelCosts);
          outCost = jmul (Num (outTok / 1000)) (output_of modelCosts);
          total = jmul (jadd (jadd inCost outCost) (Num fee)) (Num disc)
      in \<lparr>inputTokens = inTok, outputTokens = outTok,
          inputCostUSD = jmul inCost (Num disc), outputCostUSD = jmul outCost (Num disc),
          fixedFeeUSD = fee * disc, totalUSD = total,
          simulatedModelName_est = simulatedModelName params\<rparr>)"

text \<open>
  \<open>estimateCostWithVariance\<close> draws \<open>Math.random()\<close> once; \<open>rnd\<close> is that draw, a number
  in \<open>[0, 1)\<close>.
\<close>

definition estimateCostWithVariance :: "PriceBook \<Rightarrow> CostEstimateParams \<Rightarrow> real \<Rightarrow> CostEstimate" where
  "estimateCostWithVariance pb params rnd =
     (let base = estimateCost pb params;
          jitter = (rnd - 0.5) * 0.1;
          varianceFactor = 1 + jitter
      in base\<lparr>inputCostUSD := jmul (inputCostUSD base) (Num varianceFactor),
               outputCostUSD := jmul (outputCostUSD base) (Num varianceFactor),
               totalUSD := jmul (totalUSD base) (Num varianceFactor)\<rparr>)"

text \<open>A price book with one named model, for the worked example of the specification.\<close>

definition example_book :: PriceBook where
  "example_book =
     \<lparr>default_costs = \<lparr>input_rate = 0.001, output_rate = 0.002\<rparr>,
      named_costs = [''gpt-4o-mini'' \<mapsto> \<lparr>input_rate = 0.00015, output_rate = 0.0006\<rparr>]\<rparr>"

definition example_params :: CostEstimateParams where
  "example_params =
     \<lparr>promptChars = 400, expectedOutputTokens = Some 100, simulatedModelName = ''gpt-4o-mini'',
      charsPerToken = Some 4, requestFixedFeeUSD = None, discountFactor = Some 1\<rparr>"

text \<open>
  The same request for the model name \<open>constructor\<close>, which is not a key of the book,
  and for a name that nothing knows.
\<close>

definition inherited_params :: CostEstimateParams where
  "inherited_params = example_params\<lparr>simulatedModelName := ''constructor''\<rparr>"

definition unknown_params :: CostEstimateParams where
  "unknown_params = example_params\<lparr>simulatedModelName := ''no-such-model''\<rparr>"

section \<open>Registered providers\<close>

record CostCapabilities =
  simulatedModelName_cap :: string
  tokenCharsPerToken :: "real option"
  requestFixedFeeUSD_cap :: "real option"
  discountFactor_cap :: "real option"

text \<open>
  The capability fields the policy reads. \<open>typicalLatencyMs\<close> and
  \<open>jsonReliabilityScore\<close> are \<open>Some\<close> exactly when \<open>typeof \<dots> === 'number'\<close>.
\<close>

record Capabilities =
  typicalLatencyMs :: "real option"
  jsonReliabilityScore :: "real option"
  cost :: "CostCapabilities option"

text \<open>
  A registration object. \<open>ident\<close> is the identity of the object: the registry creates a
  new object for every registration, and the router compares registrations by reference
  (\<open>s.provider === rp\<close>). The handler is an effectful procedure; what it does when called
  is given by the environment of a dispatch, below.
\<close>

record RegisteredProvider =
  ident :: nat
  modelType :: string
  provider :: string
  priority :: "real option"
  capabilities :: "Capabilities option"

text \<open>
  The registry: the map from capability to registrations, and the number of registration
  objects created so far, which gives the next object its identity.
\<close>

record ModelRegistry =
  modelTypeToProviders :: "string \<rightharpoonup> RegisteredProvider list"
  allocated :: nat

definition new_ModelRegistry :: ModelRegistry where
  "new_ModelRegistry = \<lparr>modelTypeToProviders = Map.empty, allocated = 0\<rparr>"

text \<open>
  \<open>registerModel\<close> appends a new registration (\<open>priority\<close> defaults to \<open>0\<close>) and sorts
  the list by descending priority, stably.
\<close>

definition registerModel ::
  "ModelRegistry \<Rightarrow> string \<Rightarrow> string \<Rightarrow> real option \<Rightarrow> Capabilities option \<Rightarrow> ModelRegistry" where
  "registerModel reg mt prov prio caps =
     (let providers = (case modelTypeToProviders reg mt of None \<Rightarrow> [] | Some ps \<Rightarrow> ps);
          registration = \<lparr>ident = allocated reg, modelType = mt, provider = prov,
                          priority = Some (case prio of None \<Rightarrow> 0 | Some x \<Rightarrow> x),
                          capabilities = caps\<rparr>;
          sorted = sort_key (\<lambda>p. - (case priority p of None \<Rightarrow> 0 | Some x \<Rightarrow> x))
                     (providers @ [registration])
      in \<lparr>modelTypeToProviders = (modelTypeToProviders reg)(mt \<mapsto> sorted),
          allocated = Suc (allocated reg)\<rparr>)"

definition getProviders :: "ModelRegistry \<Rightarrow> string \<Rightarrow> RegisteredProvider list" where
  "getProviders reg mt = (case modelTypeToProviders reg mt of None \<Rightarrow> [] | Some ps \<Rightarrow> ps)"

definition clear_reg :: "ModelRegistry \<Rightarrow> ModelRegistry" where
  "clear_reg reg = reg\<lparr>modelTypeToProviders := Map.empty\<rparr>"

text \<open>
  The registries a program can build with \<open>registerModel\<close> and \<open>clear\<close>.
  \<open>getProviders\<close> returns a copy of the list, which holds the same registration
  objects; \<open>getAll\<close> hands out the map itself, and a caller that edits it is outside
  these registries.
\<close>

inductive registered :: "ModelRegistry \<Rightarrow> bool" where
  g_new: "registered new_ModelRegistry"
| g_registerModel: "registered reg \<Longrightarrow> registered (registerModel reg mt prov prio caps)"
| g_clear: "registered reg \<Longrightarrow> registered (clear_reg reg)"

text \<open>
  The invariant of these registries: the identities in use are below the allocation
  counter, and no list holds an object twice.
\<close>

definition registry_inv :: "ModelRegistry \<Rightarrow> bool" where
  "registry_inv reg \<longleftrightarrow>
     (\<forall>mt ps. modelTypeToProviders reg mt = Some ps \<longrightarrow>
        (\<forall>p \<in> set ps. ident p < allocated reg) \<and> distinct (map ident ps))"

section \<open>Routing policy\<close>

record PolicyOptions =
  promptLength :: "real option"
  hasSchema :: "bool option"
  promptLengthThreshold :: "real option"
  jsonBiasWeight :: "real option"
  latencyWeight :: "real option"
  failurePenalty :: "real option"
  explorationEpsilon :: "real option"
  costWeight :: "real option"
  expectedOutputTokens_opt :: "real option"
  sessionBudget_opt :: "real option"
  sessionSpent_opt :: "jsnum option"

text \<open>The options object \<open>{}\<close>.\<close>

definition no_options :: PolicyOptions where
  "no_options = \<lparr>promptLength = None, hasSchema = None, promptLengthThreshold = None,
     jsonBiasWeight = None, latencyWeight = None, failurePenalty = None,
     explorationEpsilon = None, costWeight = None, expectedOutputTokens_opt = None,
     sessionBudget_opt = None, sessionSpent_opt = None\<rparr>"

record ScoredStats =
  p95Latency_sp :: "int option"
  successRatio :: "real option"
  failureRatio :: real

record ScoredProvider =
  provider_sp :: RegisteredProvider
  score :: jsnum
  stats :: ScoredStats
  costEstimate :: "CostEstimate option"

text \<open>A destructuring default: \<open>x = d\<close> takes \<open>d\<close> when the field is \<open>undefined\<close>.\<close>

definition dflt :: "'a \<Rightarrow> 'a option \<Rightarrow> 'a" where
  "dflt d x = (case x of None \<Rightarrow> d | Some v \<Rightarrow> v)"

text \<open>\<open>promptLength > 0 ? promptLength < promptLengthThreshold : false\<close>\<close>

definition isShort :: "PolicyOptions \<Rightarrow> bool" where
  "isShort opts =
     (if dflt 0 (promptLength opts) > 0
      then dflt 0 (promptLength opts) < dflt 600 (promptLengthThreshold opts) else False)"

text \<open>
  The cost weight, doubled under budget pressure. \<open>if (sessionBudget && sessionSpent > 0)\<close>
  holds for a budget that is given and not \<open>0\<close> and a spent amount that is a positive
  number.
\<close>

definition effectiveCostWeight :: "PolicyOptions \<Rightarrow> real" where
  "effectiveCostWeight opts =
     (case sessionBudget_opt opts of
        None \<Rightarrow> dflt 1 (costWeight opts)
      | Some b \<Rightarrow>
          (case dflt (Num 0) (sessionSpent_opt opts) of
             NaN \<Rightarrow> dflt 1 (costWeight opts)
           | Num spent \<Rightarrow>
               if b \<noteq> 0 \<and> spent > 0
               then (if spent / b > 0.8
                     then dflt 1 (costWeight opts) * 2 else dflt 1 (costWeight opts))
               else dflt 1 (costWeight opts)))"

text \<open>
  The cost estimate of a candidate: made when the candidate has a cost block with a
  non-empty model name and the prompt length is positive. \<open>rnd\<close> is the variance draw.
\<close>

definition candidate_cost :: "PriceBook \<Rightarrow> PolicyOptions \<Rightarrow> RegisteredProvider \<Rightarrow> real \<Rightarrow> CostEstimate option" where
  "candidate_cost pb opts p rnd =
     (case capabilities p of
        None \<Rightarrow> None
      | Some caps \<Rightarrow>
          (case cost caps of
             None \<Rightarrow> None
           | Some cc \<Rightarrow>
               if simulatedModelName_cap cc \<noteq> [] \<and> dflt 0 (promptLength opts) > 0
               then Some (estimateCostWithVariance pb
                      \<lparr>promptChars = dflt 0 (promptLength opts),
                       expectedOutputTokens = expectedOutputTokens_opt opts,
                       simulatedModelName = simulatedModelName_cap cc,
                       charsPerToken = tokenCharsPerToken cc,
                       requestFixedFeeUSD = requestFixedFeeUSD_cap cc,
                       discountFactor = discountFactor_cap cc\<rparr> rnd)
               else None))"

text \<open>
  The hard budget ceiling:
  \<open>if (sessionBudget) { if (costEstimate.totalUSD > sessionBudget - sessionSpent) continue; }\<close>
\<close>

definition over_budget :: "PolicyOptions \<Rightarrow> CostEstimate \<Rightarrow> bool" where
  "over_budget opts ce =
     (case sessionBudget_opt opts of
        None \<Rightarrow> False
      | Some b \<Rightarrow>
          b \<noteq> 0 \<and> jgt (totalUSD ce) (jsub (Num b) (dflt (Num 0) (sessionSpent_opt opts))))"

text \<open>
  The body of the loop of \<open>select\<close> for a candidate whose circuit is not open: \<open>None\<close>
  when the budget ceiling skips the candidate, otherwise its scored entry. \<open>vr\<close> is the
  variance draw of the cost estimate and \<open>jr\<close> the exploration draw.
\<close>

definition score_candidate ::
  "PriceBook \<Rightarrow> Telemetry \<Rightarrow> string \<Rightarrow> PolicyOptions \<Rightarrow> RegisteredProvider \<Rightarrow> real \<Rightarrow> real
     \<Rightarrow> ScoredProvider option" where
  "score_candidate pb tel mt opts p vr jr =
     (let caps = dflt \<lparr>typicalLatencyMs = None, jsonReliabilityScore = None, cost = None\<rparr>
                   (capabilities p);
          score0 = Num (dflt 0 (priority p));
          ce = candidate_cost pb opts p vr;
          score1 = (case ce of None \<Rightarrow> score0
                    | Some c \<Rightarrow> jsub score0 (jmul (Num (effectiveCostWeight opts)) (totalUSD c)))
      in if (case ce of None \<Rightarrow> False | Some c \<Rightarrow> over_budget opts c) then None
         else
           let score2 = (case typicalLatencyMs caps of
                           Some l \<Rightarrow> if isShort opts then jadd score1 (Num (1 / max 1 l))
                                     else score1
                         | None \<Rightarrow> score1);
               score3 = (case jsonReliabilityScore caps of
                           Some j \<Rightarrow> if dflt False (hasSchema opts)
                                     then jadd score2 (Num (dflt 1 (jsonBiasWeight opts) * j))
                                     else score2
                         | None \<Rightarrow> score2);
               st = getStats tel (provider p) mt;
               fr = (if count_stats st > 0
                     then (real (failure st) + real (timeout st)) / real (count_stats st) else 0);
               sr = (if count_stats st > 0
                     then Some (real (success st) / real (count_stats st)) else None);
               p95 = p95Latency st;
               score4 = (case p95 of None \<Rightarrow> score3
                         | Some l \<Rightarrow> jsub score3 (Num (dflt 0.001 (latencyWeight opts) * of_int l)));
               score5 = (if fr > 0 then jsub score4 (Num (dflt 2 (failurePenalty opts) * fr))
                         else score4);
               score6 = jadd score5 (Num (jr * dflt 0.01 (explorationEpsilon opts)))
           in Some \<lparr>provider_sp = p, score = score6,
                     stats = \<lparr>p95Latency_sp = p95, successRatio = sr, failureRatio = fr\<rparr>,
                     costEstimate = ce\<rparr>)"

text \<open>
  What the environment answers during one \<open>select\<close> call. Per position of the candidate
  in the list: the clock reading of its \<open>isOpen\<close> query, the variance draw of its cost
  estimate and its exploration draw. And the order in which the engine's \<open>sort\<close> leaves
  an array whose comparison function is not consistent, which ECMAScript does not fix.
\<close>

record SelectEnv =
  now_sel :: "nat \<Rightarrow> int"
  variance_rnd :: "nat \<Rightarrow> real"
  jitter_rnd :: "nat \<Rightarrow> real"
  engine_sort :: "ScoredProvider list \<Rightarrow> ScoredProvider list"

text \<open>
  The loop \<open>for (const p of providers)\<close>, from position \<open>i\<close> on: the entries pushed to
  \<open>scored\<close>, in order, and the breaker after the queries.
\<close>

fun select_loop ::
  "PriceBook \<Rightarrow> Telemetry \<Rightarrow> string \<Rightarrow> PolicyOptions \<Rightarrow> SelectEnv \<Rightarrow> nat
     \<Rightarrow> RegisteredProvider list \<Rightarrow> CircuitBreaker \<Rightarrow> ScoredProvider list \<times> CircuitBreaker" where
  "select_loop pb tel mt opts env i [] cb = ([], cb)"
| "select_loop pb tel mt opts env i (p # ps) cb =
     (case isOpen (now_sel env i) cb (provider p) mt of
        (True, cb1) \<Rightarrow> select_loop pb tel mt opts env (Suc i) ps cb1
      | (False, cb1) \<Rightarrow>
          (case score_candidate pb tel mt opts p (variance_rnd env i) (jitter_rnd env i) of
             None \<Rightarrow> select_loop pb tel mt opts env (Suc i) ps cb1
           | Some s \<Rightarrow>
               (case select_loop pb tel mt opts env (Suc i) ps cb1 of
                  (rest, cb2) \<Rightarrow> (s # rest, cb2))))"

text \<open>
  \<open>scored.sort((a, b) => b.score - a.score)\<close>. The sort is stable. When no score is
  \<open>NaN\<close> it orders by descending score. A difference with a \<open>NaN\<close> score is \<open>NaN\<close>, which
  the sort takes for \<open>0\<close>: when the scores that are numbers are all equal, every
  comparison answers "equal" and the array stays as it is; otherwise the comparison
  function is not consistent and the order is the engine's.
\<close>

definition numeric_scores :: "ScoredProvider list \<Rightarrow> real list" where
  "numeric_scores scored =
     concat (map (\<lambda>s. case score s of Num x \<Rightarrow> [x] | NaN \<Rightarrow> []) scored)"

definition score_value :: "ScoredProvider \<Rightarrow> real" where
  "score_value s = (case score s of Num x \<Rightarrow> x | NaN \<Rightarrow> 0)"

definition sort_scored :: "SelectEnv \<Rightarrow> ScoredProvider list \<Rightarrow> ScoredProvider list" where
  "sort_scored env scored =
     (if list_all (\<lambda>s. score s \<noteq> NaN) scored
      then sort_key (\<lambda>s. - score_value s) scored
      else if (case numeric_scores scored of
                 [] \<Rightarrow> True | x # xs \<Rightarrow> list_all (\<lambda>y. y = x) xs)
      then scored
      else engine_sort env scored)"

definition select ::
  "PriceBook \<Rightarrow> Telemetry \<Rightarrow> CircuitBreaker \<Rightarrow> SelectEnv \<Rightarrow> string \<Rightarrow> RegisteredProvider list
     \<Rightarrow> PolicyOptions \<Rightarrow> ScoredProvider list \<times> CircuitBreaker" where
  "select pb tel cb env mt providers opts =
     (case select_loop pb tel mt opts env 0 providers cb of
        (scored, cb1) \<Rightarrow> (sort_scored env scored, cb1))"

section \<open>Router\<close>

text \<open>
  The parameter object of a call is an arbitrary JavaScript value; the router reads its
  \<open>prompt\<close> and \<open>schema\<close> properties.
\<close>

datatype jsval =
    JUndefined
  | JNull
  | JBool bool
  | JNum real
  | JStr string
  | JObj "(string \<times> jsval) list"

text \<open>\<open>v?.name\<close>: the property of an object, \<open>undefined\<close> otherwise.\<close>

fun get_prop :: "jsval \<Rightarrow> string \<Rightarrow> jsval" where
  "get_prop (JObj props) name = (case map_of props name of None \<Rightarrow> JUndefined | Some v \<Rightarrow> v)"
| "get_prop v name = JUndefined"

text \<open>\<open>!!v\<close>\<close>

fun truthy :: "jsval \<Rightarrow> bool" where
  "truthy JUndefined = False"
| "truthy JNull = False"
| "truthy (JBool b) = b"
| "truthy (JNum x) = (x \<noteq> 0)"
| "truthy (JStr s) = (s \<noteq> [])"
| "truthy (JObj props) = True"

record RouterOptions =
  telemetryWindow :: "int option"
  circuitFailureThreshold :: "int option"
  circuitCoolOffMs :: "int option"
  perCallTimeoutMs_ro :: "int option"
  maxRetries_ro :: "int option"
  sessionBudget_ro :: "real option"

record Router =
  telemetry :: Telemetry
  circuit :: CircuitBreaker
  perCallTimeoutMs :: int
  maxRetries :: int
  sessionBudget :: "real option"
  sessionSpent :: jsnum

definition new_Router :: "RouterOptions \<Rightarrow> Router" where
  "new_Router opts =
     \<lparr>telemetry = new_Telemetry (dflt 200 (telemetryWindow opts)),
      circuit = new_CircuitBreaker
        \<lparr>failureThreshold = dflt 3 (circuitFailureThreshold opts),
         coolOffMs = dflt 60000 (circuitCoolOffMs opts)\<rparr>,
      perCallTimeoutMs = dflt 300000 (perCallTimeoutMs_ro opts),
      maxRetries = max 0 (dflt 2 (maxRetries_ro opts)),
      sessionBudget = sessionBudget_ro opts,
      sessionSpent = Num 0\<rparr>"

text \<open>
  What a handler call can do within \<open>withTimeout\<close>: resolve with a value, reject, or
  still be pending when the timer fires.
\<close>

datatype js_error =
    TimeoutError int
  | HandlerError string string
  | NullishError

datatype handler_outcome = Resolves jsval | Rejects js_error | Pending

text \<open>
  \<open>withTimeout(p, ms)\<close>: the race of the handler's promise with a timer that rejects with
  an error named \<open>TimeoutError\<close>.
\<close>

definition withTimeout :: "handler_outcome \<Rightarrow> int \<Rightarrow> js_error + jsval" where
  "withTimeout h ms =
     (case h of Resolves v \<Rightarrow> Inr v | Rejects e \<Rightarrow> Inl e | Pending \<Rightarrow> Inl (TimeoutError ms))"

text \<open>Lower case of an ASCII letter, for the case-insensitive test \<open>/timeout/i\<close>.\<close>

definition lower :: "char \<Rightarrow> char" where
  "lower c = (if (65::nat) \<le> of_char c \<and> of_char c \<le> (90::nat)
              then char_of (of_char c + (32::nat)) else c)"

fun contains :: "string \<Rightarrow> string \<Rightarrow> bool" where
  "contains pat [] = (pat = [])"
| "contains pat (c # cs) = (take (length pat) (c # cs) = pat \<or> contains pat cs)"

text \<open>
  \<open>err && (err.name === 'TimeoutError' || /timeout/i.test(String(err?.message)))\<close>
\<close>

fun isTimeout :: "js_error \<Rightarrow> bool" where
  "isTimeout (TimeoutError ms) = True"
| "isTimeout (HandlerError name message) =
     (name = ''TimeoutError'' \<or> contains ''timeout'' (map lower message))"
| "isTimeout NullishError = False"

text \<open>
  What the environment answers during one attempt: the clock readings at \<open>start\<close>, for
  the latency, for the timestamp of the telemetry record and inside \<open>onFailure\<close>, and
  what the handler does.
\<close>

record AttemptEnv =
  t_start :: int
  handler_does :: handler_outcome
  t_latency :: int
  t_stamp :: int
  t_failure :: int

record DispatchEnv =
  sel_env :: SelectEnv
  attempt_env :: "nat \<Rightarrow> AttemptEnv"

record DispatchOk =
  result_ok :: jsval
  provider_ok :: string
  costEstimate_ok :: "CostEstimate option"

text \<open>
  The errors \<open>useModelWithInfo\<close> throws: no candidate registered, every candidate
  filtered out by the policy, and the last error of the attempts, which carries the
  attempted providers and the last attempted provider.
\<close>

datatype dispatch_error =
    NoProviders
  | AllUnavailable
  | AttemptsFailed js_error "string list" string

text \<open>
  The options the router passes to \<open>select\<close>:
  \<open>{ ...policyOptions, promptLength, hasSchema, sessionBudget, sessionSpent }\<close>, where
  \<open>promptLength\<close> is \<open>params.prompt.length\<close> for a string \<open>params.prompt\<close> and \<open>0\<close>
  otherwise, and \<open>hasSchema\<close> is \<open>!!params?.schema\<close>. Properties written after the spread
  replace those of \<open>policyOptions\<close>.
\<close>

definition derived_promptLength :: "jsval \<Rightarrow> nat" where
  "derived_promptLength params = (case get_prop params ''prompt'' of JStr s \<Rightarrow> length s | _ \<Rightarrow> 0)"

definition ranking_options :: "Router \<Rightarrow> jsval \<Rightarrow> PolicyOptions \<Rightarrow> PolicyOptions" where
  "ranking_options r params policyOptions =
     policyOptions\<lparr>promptLength := Some (real (derived_promptLength params)),
                   hasSchema := Some (truthy (get_prop params ''schema'')),
                   sessionBudget_opt := sessionBudget r,
                   sessionSpent_opt := Some (sessionSpent r)\<rparr>"

text \<open>\<open>providers.filter((p) => p.provider === providerHint)\<close> for a non-empty hint.\<close>

definition candidates_for :: "ModelRegistry \<Rightarrow> string \<Rightarrow> string option \<Rightarrow> RegisteredProvider list" where
  "candidates_for reg mt providerHint =
     (case providerHint of
        None \<Rightarrow> getProviders reg mt
      | Some h \<Rightarrow> if h = [] then getProviders reg mt
                  else filter (\<lambda>p. provider p = h) (getProviders reg mt))"

text \<open>
  The loop \<open>for (const rp of ranked)\<close>, with \<open>attempts\<close> calls already made and
  \<open>lastError\<close> the error of the last one. It ends by returning from the function
  (\<open>Inr\<close>) or by falling out of the loop (\<open>Inl\<close>, with the number of attempts and the
  last error).
\<close>

fun attempt_loop ::
  "DispatchEnv \<Rightarrow> string \<Rightarrow> ScoredProvider list \<Rightarrow> nat \<Rightarrow> js_error option
     \<Rightarrow> RegisteredProvider list \<Rightarrow> Router \<Rightarrow> ((nat \<times> js_error option) + DispatchOk) \<times> Router" where
  "attempt_loop env mt scored attempts lastError [] r = (Inl (attempts, lastError), r)"
| "attempt_loop env mt scored attempts lastError (rp # rest) r =
     (if int attempts > maxRetries r then (Inl (attempts, lastError), r)
      else
        let a = attempt_env env attempts in
        (case withTimeout (handler_does a) (perCallTimeoutMs r) of
           Inr res \<Rightarrow>
             let tel1 = record_tel (telemetry r)
                          \<lparr>provider_rec = provider rp, modelType_rec = mt,
                           latencyMs = t_latency a - t_start a, timestamp = t_stamp a,
                           outcome = Success\<rparr>;
                 cb1 = onSuccess (circuit r) (provider rp) mt;
                 actualCostEstimate =
                   (case find (\<lambda>s. provider_sp s = rp) scored of
                      None \<Rightarrow> None | Some s \<Rightarrow> costEstimate s);
                 spent1 = (case actualCostEstimate of
                             None \<Rightarrow> sessionSpent r
                           | Some c \<Rightarrow> jadd (sessionSpent r) (totalUSD c))
             in (Inr \<lparr>result_ok = res, provider_ok = provider rp,
                       costEstimate_ok = actualCostEstimate\<rparr>,
                 r\<lparr>telemetry := tel1, circuit := cb1, sessionSpent := spent1\<rparr>)
         | Inl err \<Rightarrow>
             let tel1 = record_tel (telemetry r)
                          \<lparr>provider_rec = provider rp, modelType_rec = mt,
                           latencyMs = t_latency a - t_start a, timestamp = t_stamp a,
                           outcome = (if isTimeout err then Timeout else Failure)\<rparr>;
                 cb1 = onFailure (t_failure a) (circuit r) (provider rp) mt
             in attempt_loop env mt scored (Suc attempts) (Some err) rest
                  (r\<lparr>telemetry := tel1, circuit := cb1\<rparr>)))"

text \<open>
  \<open>lastError ?? new Error(`Failed to execute ${modelType} with available providers`)\<close>
  replaces a last error that is \<open>null\<close> or \<open>undefined\<close>.
\<close>

definition generic_failure :: "string \<Rightarrow> js_error" where
  "generic_failure mt =
     HandlerError ''Error'' (''Failed to execute '' @ mt @ '' with available providers'')"

text \<open>
  \<open>useModelWithInfo\<close>. The result is what the call returns (\<open>Inr\<close>) or throws
  (\<open>Inl\<close>), with the router as the call leaves it.
\<close>

definition useModelWithInfo ::
  "PriceBook \<Rightarrow> ModelRegistry \<Rightarrow> DispatchEnv \<Rightarrow> Router \<Rightarrow> string \<Rightarrow> jsval \<Rightarrow> PolicyOptions
     \<Rightarrow> string option \<Rightarrow> (dispatch_error + DispatchOk) \<times> Router" where
  "useModelWithInfo pb reg env r mt params policyOptions providerHint =
     (let candidates = candidates_for reg mt providerHint in
      if candidates = [] then (Inl NoProviders, r)
      else
        (case select pb (telemetry r) (circuit r) (sel_env env) mt candidates
                (ranking_options r params policyOptions) of
           (scored, cb1) \<Rightarrow>
             if scored = [] then (Inl AllUnavailable, r\<lparr>circuit := cb1\<rparr>)
             else
               let ranked = map provider_sp scored in
               (case attempt_loop env mt scored 0 None ranked (r\<lparr>circuit := cb1\<rparr>) of
                  (Inr ok, r1) \<Rightarrow> (Inr ok, r1)
                | (Inl (attempts, lastError), r1) \<Rightarrow>
                    (Inl (AttemptsFailed
                            (case lastError of
                               None \<Rightarrow> generic_failure mt
                             | Some NullishError \<Rightarrow> generic_failure mt
                             | Some e \<Rightarrow> e)
                            (map provider (take attempts ranked))
                            (if 0 < attempts \<and> attempts \<le> length ranked \<and>
                                provider (ranked ! (attempts - 1)) \<noteq> []
                             then provider (ranked ! (attempts - 1)) else ''unknown'')),
                     r1))))"

section \<open>Example inputs\<close>

text \<open>
  An environment in which the clock always reads 2000, every variance draw is the
  neutral \<open>0.5\<close> (variance factor 1), every exploration draw is \<open>0\<close>, and the engine's
  sort leaves an array with an inconsistent comparison function as it is.
\<close>

definition still_env :: SelectEnv where
  "still_env = \<lparr>now_sel = (\<lambda>i. 2000), variance_rnd = (\<lambda>i. 0.5), jitter_rnd = (\<lambda>i. 0),
                 engine_sort = (\<lambda>xs. xs)\<rparr>"

text \<open>The capability records of a provider with a cost block and of one without.\<close>

definition costed_caps :: Capabilities where
  "costed_caps =
     \<lparr>typicalLatencyMs = Some 100, jsonReliabilityScore = None,
      cost = Some \<lparr>simulatedModelName_cap = ''gpt-4o-mini'', tokenCharsPerToken = None,
                   requestFixedFeeUSD_cap = None, discountFactor_cap = None\<rparr>\<rparr>"

definition plain_caps :: Capabilities where
  "plain_caps = \<lparr>typicalLatencyMs = Some 500, jsonReliabilityScore = None, cost = None\<rparr>"

text \<open>
  Registrations of capability \<open>T\<close>: provider \<open>A\<close> with the cost block, provider \<open>B\<close>
  without one, and a second costed provider \<open>C\<close> with the priority of \<open>A\<close>.
\<close>

definition costed_provider :: RegisteredProvider where
  "costed_provider =
     \<lparr>ident = 0, modelType = ''T'', provider = ''A'', priority = Some 5,
      capabilities = Some costed_caps\<rparr>"

definition plain_provider :: RegisteredProvider where
  "plain_provider =
     \<lparr>ident = 1, modelType = ''T'', provider = ''B'', priority = Some 4,
      capabilities = Some plain_caps\<rparr>"

definition rival_provider :: RegisteredProvider where
  "rival_provider =
     \<lparr>ident = 2, modelType = ''T'', provider = ''C'', priority = Some 5,
      capabilities = Some costed_caps\<rparr>"

text \<open>A provider whose cost block names the model \<open>constructor\<close>.\<close>

definition inherited_provider :: RegisteredProvider where
  "inherited_provider =
     \<lparr>ident = 3, modelType = ''T'', provider = ''D'', priority = Some 5,
      capabilities = Some \<lparr>typicalLatencyMs = Some 100, jsonReliabilityScore = None,
        cost = Some \<lparr>simulatedModelName_cap = ''constructor'', tokenCharsPerToken = None,
                     requestFixedFeeUSD_cap = None, discountFactor_cap = None\<rparr>\<rparr>\<rparr>"

definition default_router_options :: RouterOptions where
  "default_router_options =
     \<lparr>telemetryWindow = None, circuitFailureThreshold = None, circuitCoolOffMs = None,
      perCallTimeoutMs_ro = None, maxRetries_ro = None, sessionBudget_ro = None\<rparr>"

text \<open>Projections of a ranking, for statements about concrete rankings.\<close>

definition ranked_names :: "ScoredProvider list \<Rightarrow> string list" where
  "ranked_names scored = map (\<lambda>s. provider (provider_sp s)) scored"

definition ranked_totals :: "ScoredProvider list \<Rightarrow> jsnum option list" where
  "ranked_totals scored = map (\<lambda>s. map_option totalUSD (costEstimate s)) scored"

text \<open>
  Options objects with a prompt of 400 characters: one with a session budget of 0, one
  with a session budget of 0.0000001 USD; nothing is spent yet.
\<close>

definition zero_budget_options :: PolicyOptions where
  "zero_budget_options = no_options\<lparr>promptLength := Some 400, sessionBudget_opt := Some 0,
     sessionSpent_opt := Some (Num 0)\<rparr>"

definition tiny_budget_options :: PolicyOptions where
  "tiny_budget_options = no_options\<lparr>promptLength := Some 400,
     sessionBudget_opt := Some 0.0000001, sessionSpent_opt := Some (Num 0)\<rparr>"

text \<open>The entry of a key, if there is one, is not in the open state.\<close>

definition not_open :: "CircuitBreaker \<Rightarrow> string \<Rightarrow> bool" where
  "not_open cb k = (case map_cb cb k of None \<Rightarrow> True | Some e \<Rightarrow> state e \<noteq> Open)"

text \<open>
  The options of \<open>tests/policy.test.ts\<close> with the exploration switched off
  (\<open>explorationEpsilon: 0\<close>), and two environments that differ in nothing but the
  variance draws of the first two candidates.
\<close>

definition test_options :: PolicyOptions where
  "test_options = no_options\<lparr>promptLength := Some 50, promptLengthThreshold := Some 100,
     explorationEpsilon := Some 0\<rparr>"

definition low_high_env :: SelectEnv where
  "low_high_env = still_env\<lparr>variance_rnd := (\<lambda>i. if i = 0 then 0.1 else 0.9)\<rparr>"

definition high_low_env :: SelectEnv where
  "high_low_env = still_env\<lparr>variance_rnd := (\<lambda>i. if i = 0 then 0.9 else 0.1)\<rparr>"

text \<open>
  The only change between two breakers is the promotion of open entries to half-open:
  the options are the same and every entry is unchanged or is an open entry whose state
  became half-open, with its counter and \<open>openedAt\<close> as before.
\<close>

definition promoted_only :: "CircuitBreaker \<Rightarrow> CircuitBreaker \<Rightarrow> bool" where
  "promoted_only cb cb1 \<longleftrightarrow>
     options cb1 = options cb \<and>
     (\<forall>k. map_cb cb1 k = map_cb cb k \<or>
          (\<exists>e. map_cb cb k = Some e \<and> state e = Open \<and>
               map_cb cb1 k = Some (e\<lparr>state := HalfOpen\<rparr>)))"

text \<open>
  Cost parameters in the ranges the specification gives for the price book and for the
  capability record: rates and fees are not negative, \<open>tokenCharsPerToken\<close> is positive,
  the discount factor is not negative, and the model name of a cost block is a key of
  the price book or a name the book does not know at all (not a name that only
  \<open>Object.prototype\<close> knows). Draws of \<open>Math.random()\<close> lie in \<open>[0, 1)\<close>.
\<close>

definition wf_costs :: "ModelCosts \<Rightarrow> bool" where
  "wf_costs c \<longleftrightarrow> 0 \<le> input_rate c \<and> 0 \<le> output_rate c"

definition wf_prices :: "PriceBook \<Rightarrow> bool" where
  "wf_prices pb \<longleftrightarrow>
     wf_costs (default_costs pb) \<and> (\<forall>n c. named_costs pb n = Some c \<longrightarrow> wf_costs c)"

definition wf_cost_caps :: "PriceBook \<Rightarrow> CostCapabilities \<Rightarrow> bool" where
  "wf_cost_caps pb cc \<longleftrightarrow>
     costs_at pb (simulatedModelName_cap cc) \<noteq> Some Inherited \<and>
     (case tokenCharsPerToken cc of None \<Rightarrow> True | Some x \<Rightarrow> 0 < x) \<and>
     (case requestFixedFeeUSD_cap cc of None \<Rightarrow> True | Some f \<Rightarrow> 0 \<le> f) \<and>
     (case discountFactor_cap cc of None \<Rightarrow> True | Some d \<Rightarrow> 0 \<le> d)"

definition wf_provider :: "PriceBook \<Rightarrow> RegisteredProvider \<Rightarrow> bool" where
  "wf_provider pb p =
     (case capabilities p of
        None \<Rightarrow> True
      | Some caps \<Rightarrow> (case cost caps of None \<Rightarrow> True | Some cc \<Rightarrow> wf_cost_caps pb cc))"

definition wf_draws :: "SelectEnv \<Rightarrow> bool" where
  "wf_draws env \<longleftrightarrow> (\<forall>i. 0 \<le> variance_rnd env i \<and> variance_rnd env i < 1)"

text \<open>
  What ECMAScript requires of every engine's \<open>sort\<close>: the result holds the elements of
  the array, each as often as the array does.
\<close>

definition conforming_sort :: "SelectEnv \<Rightarrow> bool" where
  "conforming_sort env \<longleftrightarrow> (\<forall>xs. mset (engine_sort env xs) = mset xs)"

text \<open>The ranking a dispatch computes, and the breaker after it.\<close>

definition dispatch_ranking ::
  "PriceBook \<Rightarrow> ModelRegistry \<Rightarrow> DispatchEnv \<Rightarrow> Router \<Rightarrow> string \<Rightarrow> jsval \<Rightarrow> PolicyOptions
     \<Rightarrow> string option \<Rightarrow> ScoredProvider list \<times> CircuitBreaker" where
  "dispatch_ranking pb reg env r mt params policyOptions providerHint =
     select pb (telemetry r) (circuit r) (sel_env env) mt (candidates_for reg mt providerHint)
       (ranking_options r params policyOptions)"

text \<open>
  The ledger after a charge: \<open>this.sessionSpent += costEstimate.totalUSD\<close> when the
  candidate carries an estimate, unchanged otherwise.
\<close>

definition charged :: "jsnum \<Rightarrow> CostEstimate option \<Rightarrow> jsnum" where
  "charged spent ce = (case ce of None \<Rightarrow> spent | Some c \<Rightarrow> jadd spent (totalUSD c))"

text \<open>The outcome of the handler call of an attempt, as \<open>withTimeout\<close> settles it.\<close>

definition attempt_outcome :: "DispatchEnv \<Rightarrow> Router \<Rightarrow> nat \<Rightarrow> js_error + jsval" where
  "attempt_outcome env r i = withTimeout (handler_does (attempt_env env i)) (perCallTimeoutMs r)"

text \<open>
  A registry with the costed provider \<open>A\<close> under capability \<open>T\<close>; one with two
  registrations named \<open>A\<close>, the first without a cost block and with the higher priority;
  and one whose provider grants a discount factor of \<open>-1\<close>.
\<close>

definition example_registry :: ModelRegistry where
  "example_registry = registerModel new_ModelRegistry ''T'' ''A'' (Some 5) (Some costed_caps)"

definition twin_registry :: ModelRegistry where
  "twin_registry =
     registerModel
       (registerModel new_ModelRegistry ''T'' ''A'' (Some 6) (Some plain_caps))
       ''T'' ''A'' (Some 5) (Some costed_caps)"

definition rebate_caps :: Capabilities where
  "rebate_caps =
     \<lparr>typicalLatencyMs = Some 100, jsonReliabilityScore = None,
      cost = Some \<lparr>simulatedModelName_cap = ''gpt-4o-mini'', tokenCharsPerToken = None,
                   requestFixedFeeUSD_cap = None, discountFactor_cap = Some (- 1)\<rparr>\<rparr>"

definition rebate_registry :: ModelRegistry where
  "rebate_registry = registerModel new_ModelRegistry ''T'' ''A'' (Some 5) (Some rebate_caps)"

text \<open>
  Environments in which every handler call resolves with \<open>"ok"\<close> after 10 ms, in which
  every call rejects, and in which the first call rejects and the later ones resolve.
\<close>

definition resolving_env :: DispatchEnv where
  "resolving_env =
     \<lparr>sel_env = still_env,
      attempt_env = (\<lambda>n. \<lparr>t_start = 2000, handler_does = Resolves (JStr ''ok''),
                           t_latency = 2010, t_stamp = 2010, t_failure = 2010\<rparr>)\<rparr>"

definition rejecting_env :: DispatchEnv where
  "rejecting_env =
     \<lparr>sel_env = still_env,
      attempt_env = (\<lambda>n. \<lparr>t_start = 2000, handler_does = Rejects (HandlerError ''Error'' ''boom''),
                           t_latency = 2010, t_stamp = 2010, t_failure = 2010\<rparr>)\<rparr>"

definition second_try_env :: DispatchEnv where
  "second_try_env =
     \<lparr>sel_env = still_env,
      attempt_env = (\<lambda>n. \<lparr>t_start = 2000,
                           handler_does = (if n = 0 then Rejects (HandlerError ''Error'' ''boom'')
                                           else Resolves (JStr ''ok'')),
                           t_latency = 2010, t_stamp = 2010, t_failure = 2010\<rparr>)\<rparr>"

definition hello_params :: jsval where
  "hello_params = JObj [(''prompt'', JStr ''hello world!'')]"

text \<open>A router with a session budget of 1 USD.\<close>

definition funded_router :: Router where
  "funded_router = new_Router (default_router_options\<lparr>sessionBudget_ro := Some 1\<rparr>)"

text \<open>
  A router with a session budget of 0.0000001 USD and a cool-off of 50 ms, whose circuit
  for provider \<open>A\<close> opened at clock reading 1002 after three failures.
\<close>

definition tripped_router :: Router where
  "tripped_router =
     (let r = new_Router (default_router_options\<lparr>sessionBudget_ro := Some 0.0000001,
                                                 circuitCoolOffMs := Some 50\<rparr>)
      in r\<lparr>circuit := failures [1000, 1001, 1002] (circuit r) ''A'' ''T''\<rparr>)"

section \<open>Circuit breaker: proofs\<close>

lemma options_isOpen [simp]: "options (snd (isOpen now cb p m)) = options cb"
  by (simp add: isOpen_def split: option.splits)

lemma options_onSuccess [simp]: "options (onSuccess cb p m) = options cb"
  by (simp add: onSuccess_def Let_def)

lemma options_onFailure [simp]: "options (onFailure now cb p m) = options cb"
  by (simp add: onFailure_def Let_def)

lemma options_failures [simp]: "options (failures ts cb p m) = options cb"
  unfolding failures_def by (induction ts arbitrary: cb) simp_all

text \<open>
  Below the threshold a fresh key only counts; the call that reaches the threshold opens
  the entry and stamps it with its own clock reading.
\<close>

lemma failures_below:
  assumes "map_cb cb (key p m) = None" and "int (length ts) < failureThreshold (options cb)"
  shows "map_cb (failures ts cb p m) (key p m) =
           (if ts = [] then None
            else Some \<lparr>state = Closed, consecutiveFailures = int (length ts), openedAt = None\<rparr>)"
  using assms
proof (induction ts rule: rev_induct)
  case Nil
  then show ?case by (simp add: failures_def)
next
  case (snoc t ts)
  then have ih: "map_cb (failures ts cb p m) (key p m) =
           (if ts = [] then None
            else Some \<lparr>state = Closed, consecutiveFailures = int (length ts), openedAt = None\<rparr>)"
    by simp
  have step: "failures (ts @ [t]) cb p m = onFailure t (failures ts cb p m) p m"
    by (simp add: failures_def)
  from snoc.prems have lt: "int (length ts) + 1 < failureThreshold (options cb)" by simp
  show ?case
    using ih lt by (simp add: step onFailure_def Let_def fresh_entry_def)
qed

lemma failures_threshold:
  assumes fresh: "map_cb cb (key p m) = None"
    and len: "int (length ts) = failureThreshold (options cb)"
    and ne: "ts \<noteq> []"
  shows "map_cb (failures ts cb p m) (key p m) =
           Some \<lparr>state = Open, consecutiveFailures = failureThreshold (options cb),
                 openedAt = Some (last ts)\<rparr>"
proof -
  from ne obtain us t where ts: "ts = us @ [t]"
    by (metis append_butlast_last_id)
  have below: "int (length us) < failureThreshold (options cb)"
    using len ts by simp
  have step: "failures (us @ [t]) cb p m = onFailure t (failures us cb p m) p m"
    by (simp add: failures_def)
  have len': "int (length us) + 1 = failureThreshold (options cb)"
    using len ts by simp
  have "map_cb (onFailure t (failures us cb p m) p m) (key p m) =
           Some \<lparr>state = Open, consecutiveFailures = failureThreshold (options cb),
                 openedAt = Some t\<rparr>"
    using failures_below [OF fresh below]
    by (cases "us = []") (simp_all add: onFailure_def Let_def fresh_entry_def len' [symmetric])
  then show ?thesis
    by (simp add: ts step)
qed

lemma reachable_tripped_inv: "reachable opts cb \<Longrightarrow> tripped_inv opts cb"
proof (induction rule: reachable.induct)
  case r_new
  show ?case by (simp add: tripped_inv_def new_CircuitBreaker_def)
next
  case (r_isOpen cb now p m)
  then show ?case
    by (auto simp: tripped_inv_def isOpen_def split: option.splits if_splits)
next
  case (r_onSuccess cb p m)
  then show ?case
    by (auto simp: tripped_inv_def onSuccess_def Let_def split: if_splits)
next
  case (r_onFailure cb now p m)
  then show ?case
    by (fastforce simp: tripped_inv_def onFailure_def Let_def fresh_entry_def
             split: option.splits if_splits)
next
  case (r_reset cb p m)
  then show ?case
    by (auto simp: tripped_inv_def reset_def split: if_splits)
next
  case (r_clearAll cb)
  then show ?case by (simp add: tripped_inv_def clearAll_def)
qed

text \<open>
  Claim C3. On a fresh key, with threshold \<open>t \<ge> 1\<close>, after \<open>t\<close> consecutive
  \<open>onFailure\<close> calls (the last one at the clock reading \<open>last ts\<close>, which is not the
  epoch reading \<open>0\<close>): a query made before the cool-off has elapsed answers \<open>true\<close> and
  changes nothing; a query made once the cool-off has elapsed answers \<open>false\<close> and leaves
  the entry half-open; a following \<open>onSuccess\<close> leaves it closed, with the counter at
  \<open>0\<close> and \<open>openedAt\<close> cleared.
\<close>

theorem circuit_open_halfopen_closed:
  assumes fresh: "map_cb cb (key p m) = None"
    and len: "int (length ts) = failureThreshold (options cb)"
    and ne: "ts \<noteq> []"
    and clock: "last ts \<noteq> 0"
    and early: "now1 - last ts < coolOffMs (options cb)"
    and late: "now2 - last ts \<ge> coolOffMs (options cb)"
  shows "isOpen now1 (failures ts cb p m) p m = (True, failures ts cb p m)
       \<and> fst (isOpen now2 (failures ts cb p m) p m) = False
       \<and> map_cb (snd (isOpen now2 (failures ts cb p m) p m)) (key p m) =
           Some \<lparr>state = HalfOpen, consecutiveFailures = failureThreshold (options cb),
                 openedAt = Some (last ts)\<rparr>
       \<and> map_cb (onSuccess (snd (isOpen now2 (failures ts cb p m) p m)) p m) (key p m) =
           Some \<lparr>state = Closed, consecutiveFailures = 0, openedAt = None\<rparr>"
proof -
  note e = failures_threshold [OF fresh len ne]
  have a: "isOpen now1 (failures ts cb p m) p m = (True, failures ts cb p m)"
    using e early by (simp add: isOpen_def)
  have b: "fst (isOpen now2 (failures ts cb p m) p m) = False"
    using e late clock by (simp add: isOpen_def)
  have c: "map_cb (snd (isOpen now2 (failures ts cb p m) p m)) (key p m) =
           Some \<lparr>state = HalfOpen, consecutiveFailures = failureThreshold (options cb),
                 openedAt = Some (last ts)\<rparr>"
    using e late clock by (simp add: isOpen_def)
  have d: "map_cb (onSuccess (snd (isOpen now2 (failures ts cb p m) p m)) p m) (key p m) =
           Some \<lparr>state = Closed, consecutiveFailures = 0, openedAt = None\<rparr>"
    by (simp add: onSuccess_def Let_def c)
  from a b c d show ?thesis by blast
qed

text \<open>
  The scenario of \<open>tests/circuitBreaker.test.ts\<close>: threshold 2, cool-off 50 ms, two
  failures, a query at once and a query 60 ms later.
\<close>

theorem circuit_open_halfopen_closed_witness:
  "isOpen 1001 (failures [1000, 1001]
       (new_CircuitBreaker \<lparr>failureThreshold = 2, coolOffMs = 50\<rparr>) ''prov'' ''T'') ''prov'' ''T''
     = (True, failures [1000, 1001]
       (new_CircuitBreaker \<lparr>failureThreshold = 2, coolOffMs = 50\<rparr>) ''prov'' ''T'')
   \<and> fst (isOpen 1061 (failures [1000, 1001]
       (new_CircuitBreaker \<lparr>failureThreshold = 2, coolOffMs = 50\<rparr>) ''prov'' ''T'') ''prov'' ''T'')
     = False
   \<and> map_cb (snd (isOpen 1061 (failures [1000, 1001]
       (new_CircuitBreaker \<lparr>failureThreshold = 2, coolOffMs = 50\<rparr>) ''prov'' ''T'') ''prov'' ''T''))
       (key ''prov'' ''T'')
     = Some \<lparr>state = HalfOpen, consecutiveFailures = 2, openedAt = Some 1001\<rparr>"
  using circuit_open_halfopen_closed
    [of "new_CircuitBreaker \<lparr>failureThreshold = 2, coolOffMs = 50\<rparr>" "''prov''" "''T''"
        "[1000, 1001]" 1001 1061]
  by (simp add: new_CircuitBreaker_def)

text \<open>
  Claim C4. In a breaker built by the public methods, an entry in the half-open state has
  a counter at or above the threshold, so one \<open>onFailure\<close> call puts it back in the open
  state, stamped with the clock reading of that call.
\<close>

theorem halfopen_failure_reopens:
  assumes "reachable opts cb"
    and "map_cb cb (key p m) = Some e"
    and "state e = HalfOpen"
  shows "map_cb (onFailure now cb p m) (key p m) =
           Some \<lparr>state = Open, consecutiveFailures = consecutiveFailures e + 1,
                 openedAt = Some now\<rparr>
       \<and> failureThreshold opts \<le> consecutiveFailures e"
proof -
  from reachable_tripped_inv [OF assms(1)]
  have o: "options cb = opts"
    and ge: "failureThreshold opts \<le> consecutiveFailures e"
    using assms(2,3) by (auto simp: tripped_inv_def)
  have "map_cb (onFailure now cb p m) (key p m) =
           Some \<lparr>state = Open, consecutiveFailures = consecutiveFailures e + 1,
                 openedAt = Some now\<rparr>"
    using assms(2) o ge by (simp add: onFailure_def Let_def)
  with ge show ?thesis by simp
qed

theorem halfopen_failure_reopens_witness:
  "map_cb (onFailure 2000
       (snd (isOpen 1061 (failures [1000, 1001]
          (new_CircuitBreaker \<lparr>failureThreshold = 2, coolOffMs = 50\<rparr>) ''prov'' ''T'')
          ''prov'' ''T'')) ''prov'' ''T'') (key ''prov'' ''T'')
     = Some \<lparr>state = Open, consecutiveFailures = 3, openedAt = Some 2000\<rparr>
   \<and> failureThreshold \<lparr>failureThreshold = 2, coolOffMs = 50\<rparr> \<le> 2"
proof -
  let ?o = "\<lparr>failureThreshold = 2, coolOffMs = 50\<rparr>"
  let ?cb = "snd (isOpen 1061 (failures [1000, 1001] (new_CircuitBreaker ?o) ''prov'' ''T'')
                ''prov'' ''T'')"
  have r: "reachable ?o ?cb"
    unfolding failures_def foldl.simps by (intro reachable.intros)
  have e: "map_cb ?cb (key ''prov'' ''T'') =
             Some \<lparr>state = HalfOpen, consecutiveFailures = 2, openedAt = Some 1001\<rparr>"
    by (simp add: failures_def isOpen_def onFailure_def new_CircuitBreaker_def fresh_entry_def
          Let_def)
  show ?thesis
    using halfopen_failure_reopens [OF r e, of 2000] by simp
qed

section \<open>Telemetry: proofs\<close>

lemma windowSize_record_tel [simp]: "windowSize (record_tel t rec) = windowSize t"
  by (simp add: record_tel_def Let_def)

lemma windowSize_records [simp]: "windowSize (records t recs) = windowSize t"
  unfolding records_def by (induction recs arbitrary: t) simp_all

lemma most_recent_snoc:
  "most_recent n (most_recent n xs @ [x]) = most_recent n (xs @ [x])"
  by (cases "length xs \<le> n") (simp_all add: most_recent_def Suc_diff_le)

lemma length_most_recent [simp]: "length (most_recent n xs) = min n (length xs)"
  by (simp add: most_recent_def)

text \<open>One \<open>record\<close> call: the ring of the record's key keeps the most recent \<open>W\<close>.\<close>

lemma ring_record_tel:
  assumes "0 \<le> windowSize t"
  shows "ring (record_tel t rec) k =
           (if k = rec_key rec then most_recent (nat (windowSize t)) (ring t k @ [rec])
            else ring t k)"
proof (cases "k = rec_key rec")
  case False
  then show ?thesis
    by (simp add: ring_def record_tel_def rec_key_def Let_def)
next
  case True
  have "ring (record_tel t rec) (rec_key rec) =
          (if int (length (ring t (rec_key rec) @ [rec])) > windowSize t
           then drop (nat (int (length (ring t (rec_key rec) @ [rec])) - windowSize t))
                  (ring t (rec_key rec) @ [rec])
           else ring t (rec_key rec) @ [rec])"
    by (simp add: ring_def record_tel_def rec_key_def Let_def splice0_def)
  also have "\<dots> = most_recent (nat (windowSize t)) (ring t (rec_key rec) @ [rec])"
  proof -
    have "nat (int (length (ring t (rec_key rec) @ [rec])) - windowSize t) =
            length (ring t (rec_key rec) @ [rec]) - nat (windowSize t)"
      using assms by (simp add: nat_diff_distrib')
    then show ?thesis
      using assms unfolding most_recent_def by (simp del: length_append)
  qed
  finally show ?thesis using True by simp
qed

lemma ring_records:
  assumes "0 \<le> windowSize t" and "length (ring t k) \<le> nat (windowSize t)"
  shows "ring (records t recs) k =
           most_recent (nat (windowSize t)) (ring t k @ filter (\<lambda>r. rec_key r = k) recs)"
proof (induction recs rule: rev_induct)
  case Nil
  show ?case using assms(2) by (simp add: records_def most_recent_def)
next
  case (snoc r rs)
  have step: "records t (rs @ [r]) = record_tel (records t rs) r"
    by (simp add: records_def)
  have w: "0 \<le> windowSize (records t rs)" using assms(1) by simp
  show ?case
  proof (cases "rec_key r = k")
    case False
    then show ?thesis
      using snoc by (auto simp add: step ring_record_tel [OF w])
  next
    case True
    have "ring (records t (rs @ [r])) k =
            most_recent (nat (windowSize t)) (ring (records t rs) k @ [r])"
      using True by (auto simp add: step ring_record_tel [OF w])
    also have "\<dots> = most_recent (nat (windowSize t))
                       ((ring t k @ filter (\<lambda>r. rec_key r = k) rs) @ [r])"
      unfolding snoc by (rule most_recent_snoc)
    finally show ?thesis using True by simp
  qed
qed

text \<open>
  Claim C5. With a window size \<open>W \<ge> 0\<close>, after every sequence of \<open>record\<close> calls on a
  new telemetry store, the ring of every key holds at most \<open>W\<close> records, and it holds
  exactly the \<open>W\<close> most recent records recorded under that key (all of them while there
  are fewer than \<open>W\<close>), oldest first.
\<close>

theorem telemetry_ring_bounded:
  assumes "0 \<le> W"
  shows "length (ring (records (new_Telemetry W) recs) k) \<le> nat W
       \<and> ring (records (new_Telemetry W) recs) k =
           most_recent (nat W) (filter (\<lambda>r. rec_key r = k) recs)"
proof -
  have w: "0 \<le> windowSize (new_Telemetry W)"
    using assms by (simp add: new_Telemetry_def)
  have e: "ring (new_Telemetry W) k = []"
    by (simp add: ring_def new_Telemetry_def)
  have l: "length (ring (new_Telemetry W) k) \<le> nat (windowSize (new_Telemetry W))"
    by (simp add: e)
  have "ring (records (new_Telemetry W) recs) k =
          most_recent (nat W) (filter (\<lambda>r. rec_key r = k) recs)"
    using ring_records [OF w l, of recs] by (simp add: e) (simp add: new_Telemetry_def)
  then show ?thesis by simp
qed

theorem telemetry_ring_bounded_witness:
  "ring (records (new_Telemetry 2) [sample 10, sample 20, sample 30]) (key ''p'' ''T'')
     = [sample 20, sample 30]"
  using telemetry_ring_bounded [of 2 "[sample 10, sample 20, sample 30]" "key ''p'' ''T''"]
  by (simp add: most_recent_def rec_key_def sample_def)

lemma percentile_spec:
  "xs \<noteq> [] \<Longrightarrow> percentile xs p = Some (xs ! spec_rank_index p (length xs))"
  by (auto simp: percentile_def spec_rank_index_def clamp_def Let_def min_def max_def of_nat_diff)

lemma sorted_window:
  assumes "mset ls = mset [10, 20, 30, 40, 50, 60, 70, 80, 90, 100 :: int]"
  shows "sort ls = [10, 20, 30, 40, 50, 60, 70, 80, 90, 100]"
  by (rule properties_for_sort) (simp_all add: assms)

lemma getStats_ring:
  "getStats t p m =
     (if ring t (key p m) = []
      then \<lparr>count_stats = 0, success = 0, failure = 0, timeout = 0,
            p50Latency = None, p95Latency = None\<rparr>
      else \<lparr>count_stats = length (ring t (key p m)),
            success = length (filter (\<lambda>a. outcome a = Success) (ring t (key p m))),
            failure = length (filter (\<lambda>a. outcome a = Failure) (ring t (key p m))),
            timeout = length (filter (\<lambda>a. outcome a = Timeout) (ring t (key p m))),
            p50Latency = percentile (sort (map latencyMs (ring t (key p m)))) 0.5,
            p95Latency = percentile (sort (map latencyMs (ring t (key p m)))) 0.95\<rparr>)"
  by (simp add: getStats_def ring_def Let_def)

text \<open>
  Claim C6. \<open>getStats\<close> answers \<open>null\<close> for both percentiles when the window of
  the key is empty; otherwise \<open>p50Latency\<close> and \<open>p95Latency\<close> are the elements of the
  ascending-sorted latencies at the index \<open>clamp(\<lfloor>p \<times> (n - 1)\<rfloor>, 0, n - 1)\<close> for
  \<open>p = 0.5\<close> and \<open>p = 0.95\<close>. For a window whose latencies are 10, 20, \<dots>, 100 in any
  order, \<open>p50Latency = 50\<close>, which lies in 40 \<dots> 50, and \<open>p95Latency = 90\<close>, which
  lies in 90 \<dots> 100.
\<close>

theorem getStats_percentiles:
  "(ring t (key p m) = [] \<longrightarrow>
      p50Latency (getStats t p m) = None \<and> p95Latency (getStats t p m) = None)
 \<and> (ring t (key p m) \<noteq> [] \<longrightarrow>
      p50Latency (getStats t p m) =
        Some (sort (map latencyMs (ring t (key p m))) !
                spec_rank_index 0.5 (length (ring t (key p m))))
    \<and> p95Latency (getStats t p m) =
        Some (sort (map latencyMs (ring t (key p m))) !
                spec_rank_index 0.95 (length (ring t (key p m)))))
 \<and> (mset (map latencyMs (ring t (key p m))) = mset [10, 20, 30, 40, 50, 60, 70, 80, 90, 100] \<longrightarrow>
      p50Latency (getStats t p m) = Some 50 \<and> p95Latency (getStats t p m) = Some 90)"
proof (intro conjI impI)
  assume "ring t (key p m) = []"
  then show "p50Latency (getStats t p m) = None" "p95Latency (getStats t p m) = None"
    by (simp_all add: getStats_ring)
next
  assume ne: "ring t (key p m) \<noteq> []"
  then have s: "sort (map latencyMs (ring t (key p m))) \<noteq> []"
    by (metis length_0_conv length_map length_sort)
  have l: "length (sort (map latencyMs (ring t (key p m)))) = length (ring t (key p m))"
    by simp
  show "p50Latency (getStats t p m) =
        Some (sort (map latencyMs (ring t (key p m))) !
                spec_rank_index 0.5 (length (ring t (key p m))))"
    using ne percentile_spec [OF s, of "0.5"] by (simp add: getStats_ring l)
  show "p95Latency (getStats t p m) =
        Some (sort (map latencyMs (ring t (key p m))) !
                spec_rank_index 0.95 (length (ring t (key p m))))"
    using ne percentile_spec [OF s, of "0.95"] by (simp add: getStats_ring l)
next
  assume w: "mset (map latencyMs (ring t (key p m))) = mset [10, 20, 30, 40, 50, 60, 70, 80, 90, 100]"
  then have ne: "ring t (key p m) \<noteq> []" by auto
  note srt = sorted_window [OF w]
  show "p50Latency (getStats t p m) = Some 50"
    using ne by (simp add: getStats_ring srt percentile_def)
  show "p95Latency (getStats t p m) = Some 90"
    using ne by (simp add: getStats_ring srt percentile_def)
qed

lemma ring_samples:
  "ring (records (new_Telemetry 10)
       (map sample [10, 20, 30, 40, 50, 60, 70, 80, 90, 100])) (key ''p'' ''T'')
    = map sample [10, 20, 30, 40, 50, 60, 70, 80, 90, 100]"
proof -
  have w: "0 \<le> windowSize (new_Telemetry 10)" by (simp add: new_Telemetry_def)
  have l: "length (ring (new_Telemetry 10) (key ''p'' ''T'')) \<le> nat (windowSize (new_Telemetry 10))"
    by (simp add: ring_def new_Telemetry_def)
  show ?thesis
    unfolding ring_records [OF w l]
    by (simp add: ring_def new_Telemetry_def most_recent_def rec_key_def sample_def)
qed

theorem getStats_percentiles_witness:
  "p50Latency (getStats (records (new_Telemetry 10)
       (map sample [10, 20, 30, 40, 50, 60, 70, 80, 90, 100])) ''p'' ''T'') = Some 50
 \<and> p95Latency (getStats (records (new_Telemetry 10)
       (map sample [10, 20, 30, 40, 50, 60, 70, 80, 90, 100])) ''p'' ''T'') = Some 90
 \<and> p50Latency (getStats (new_Telemetry 10) ''p'' ''T'') = None"
proof -
  let ?T = "records (new_Telemetry 10) (map sample [10, 20, 30, 40, 50, 60, 70, 80, 90, 100])"
  have m: "mset (map latencyMs (ring ?T (key ''p'' ''T''))) =
             mset [10, 20, 30, 40, 50, 60, 70, 80, 90, 100]"
    unfolding ring_samples by (simp add: sample_def)
  have e: "ring (new_Telemetry 10) (key ''p'' ''T'') = []"
    by (simp add: ring_def new_Telemetry_def)
  from getStats_percentiles [of ?T "''p''" "''T''"] m
  have a: "p50Latency (getStats ?T ''p'' ''T'') = Some 50 \<and>
           p95Latency (getStats ?T ''p'' ''T'') = Some 90"
    by blast
  from getStats_percentiles [of "new_Telemetry 10" "''p''" "''T''"] e
  have b: "p50Latency (getStats (new_Telemetry 10) ''p'' ''T'') = None"
    by blast
  from a b show ?thesis by blast
qed

section \<open>Numbers: proofs\<close>

lemma round_half_even_of_int [simp]: "round_half_even (of_int k) = k"
  by (simp add: round_half_even_def)

text \<open>An integer below \<open>2\<^sup>5\<^sup>3\<close> is a double, and rounding leaves it as it is.\<close>

lemma round64_of_int:
  assumes "\<bar>n\<bar> < 2 ^ 53"
  shows "round64 (of_int n) = of_int n"
proof (cases "n = 0")
  case True
  then show ?thesis by (simp add: round64_def)
next
  case False
  then have a1: "1 \<le> \<bar>n\<bar>" by simp
  define e where "e = bitlen \<bar>n\<bar> - 1"
  have ex: "expo (of_int n) = e"
    using a1 by (simp add: expo_def e_def flip: of_int_abs)
  have "1 \<le> bitlen \<bar>n\<bar>"
    using a1 by (simp add: bitlen_ge_iff_power)
  then have e0: "0 \<le> e" by (simp add: e_def)
  have "bitlen \<bar>n\<bar> \<le> 53"
    using assms by (simp add: bitlen_le_iff_power)
  then have e52: "e \<le> 52" by (simp add: e_def)
  define k where "k = nat (52 - e)"
  have q: "pow2 (max (expo (of_int n)) (- 1022) - 52) = 1 / 2 ^ k"
    using e0 e52 by (auto simp: ex pow2_def k_def)
  have d: "real_of_int n / (1 / 2 ^ k) = of_int (n * 2 ^ k)"
    by simp
  have r: "round_half_even (real_of_int n / (1 / 2 ^ k)) = n * 2 ^ k"
    unfolding d by (rule round_half_even_of_int)
  have "round64 (of_int n) = (1 / 2 ^ k) * of_int (n * 2 ^ k)"
    using False unfolding round64_def q Let_def r by simp
  then show ?thesis by simp
qed

lemma round64_numeral [simp]:
  "(numeral k :: int) < 9007199254740992 \<Longrightarrow> round64 (numeral k) = numeral k"
  using round64_of_int [of "numeral k"] by simp

lemmas round64_eval = round64_def expo_def pow2_def round_half_even_def compute_bitlen Let_def

text \<open>
  The literals \<open>4.1\<close> and \<open>0.3\<close> denote the doubles nearest to them. The rounding of
  the quotient decides the token count: \<open>123 / 4.1\<close> gives 31 tokens, and \<open>3 / 0.3\<close>
  gives 10 tokens although the exact quotient of the two doubles lies above 10.
\<close>

lemma estimateTokens_rounds_quotient:
  "round64 4.1 = 2308094809027379 / 562949953421312"
  "round64 0.3 = 5404319552844595 / 18014398509481984"
  "estimateTokens 123 (round64 4.1) = 31"
  "estimateTokens 3 (round64 0.3) = 10"
  "\<lceil>3 / round64 0.3\<rceil> = 11"
  by (simp_all add: estimateTokens_def round64_eval)

section \<open>Cost estimator: proofs\<close>

text \<open>
  The worked example of the specification: 400 characters at 4 characters per token, 100
  expected output tokens, discount 1, no fee, rates 0.00015 and 0.0006 give 100 input
  tokens, 100 output tokens and a total of 0.000075 USD; and a model name that nothing
  knows gets the rates of the \<open>"default"\<close> entry.
\<close>

lemma estimateCost_example:
  "inputTokens (estimateCost example_book example_params) = 100"
  "outputTokens (estimateCost example_book example_params) = 100"
  "totalUSD (estimateCost example_book example_params) = Num 0.000075"
  "getModelCosts example_book ''no-such-model'' = Rates (default_costs example_book)"
  "totalUSD (estimateCost example_book unknown_params) = Num 0.0003"
  by (simp_all add: estimateCost_def estimateTokens_def getModelCosts_def costs_at_def
        example_book_def example_params_def unknown_params_def object_prototype_names_def Let_def)

text \<open>
  Claim C7. The claim says that a \<open>simulatedModelName\<close> absent from the price book falls
  back to the \<open>"default"\<close> entry. The lookup \<open>this.costs[simulatedModelName]\<close> also
  finds what the book inherits from \<open>Object.prototype\<close>: the name \<open>constructor\<close> is not
  a key of the book, yet the lookup answers a function, which is truthy, so there is no
  fallback, both rates are \<open>undefined\<close>, and the input cost, the output cost and the
  total are \<open>NaN\<close>, where the \<open>"default"\<close> rates give a total of 0.0003 USD.
\<close>

theorem estimateCost_inherited_name_no_fallback:
  "named_costs example_book ''constructor'' = None
 \<and> getModelCosts example_book ''constructor'' = Inherited
 \<and> inputTokens (estimateCost example_book inherited_params) = 100
 \<and> outputTokens (estimateCost example_book inherited_params) = 100
 \<and> inputCostUSD (estimateCost example_book inherited_params) = NaN
 \<and> outputCostUSD (estimateCost example_book inherited_params) = NaN
 \<and> totalUSD (estimateCost example_book inherited_params) = NaN
 \<and> totalUSD (estimateCost example_book unknown_params) = Num 0.0003"
  by (simp add: estimateCost_def estimateTokens_def getModelCosts_def costs_at_def
        example_book_def example_params_def inherited_params_def unknown_params_def
        object_prototype_names_def Let_def)

section \<open>Router: the prompt length used for ranking\<close>

text \<open>
  Claim C9. The claim says that a caller-supplied \<open>options.promptLength\<close> overrides the
  derived value and that the derived value is the length of \<open>params.prompt\<close> or of
  \<open>params.text\<close>. The router writes its derived \<open>promptLength\<close> after the spread of the
  caller's options and derives it from \<open>params.prompt\<close> alone: for the parameters
  \<open>{text: "hello"}\<close> it ranks with \<open>promptLength = 0\<close>, with and without the option
  \<open>promptLength: 5\<close>, and for \<open>{prompt: "hi"}\<close> with the option \<open>promptLength: 50\<close> it
  ranks with \<open>promptLength = 2\<close>.
\<close>

theorem dispatch_promptLength_from_prompt_only:
  "promptLength (ranking_options (new_Router default_router_options)
       (JObj [(''text'', JStr ''hello'')]) (no_options\<lparr>promptLength := Some 5\<rparr>)) = Some 0
 \<and> promptLength (ranking_options (new_Router default_router_options)
       (JObj [(''text'', JStr ''hello'')]) no_options) = Some 0
 \<and> promptLength (ranking_options (new_Router default_router_options)
       (JObj [(''prompt'', JStr ''hi'')]) (no_options\<lparr>promptLength := Some 50\<rparr>)) = Some 2"
  by (simp add: ranking_options_def derived_promptLength_def)

text \<open>
  In general the caller's \<open>promptLength\<close> has no effect on a dispatch.
\<close>

lemma ranking_options_ignores_promptLength:
  "ranking_options r params (policyOptions\<lparr>promptLength := x\<rparr>) =
   ranking_options r params policyOptions"
  by (simp add: ranking_options_def)

lemma useModelWithInfo_ignores_promptLength:
  "useModelWithInfo pb reg env r mt params (policyOptions\<lparr>promptLength := x\<rparr>) providerHint =
   useModelWithInfo pb reg env r mt params policyOptions providerHint"
  unfolding useModelWithInfo_def ranking_options_ignores_promptLength ..

section \<open>Routing policy: the hard filters\<close>

lemma isOpen_False_not_open:
  "isOpen now cb p m = (False, cb1) \<Longrightarrow> not_open cb1 (key p m)"
  by (auto simp: isOpen_def not_open_def split: option.splits if_splits)

lemma isOpen_keeps_not_open:
  "not_open cb k \<Longrightarrow> not_open (snd (isOpen now cb p m)) k"
  by (auto simp: isOpen_def not_open_def split: option.splits if_splits)

lemma select_loop_keeps_not_open:
  "not_open cb k \<Longrightarrow> not_open (snd (select_loop pb tel mt opts env i ps cb)) k"
proof (induction ps arbitrary: i cb)
  case Nil
  then show ?case by simp
next
  case (Cons p ps)
  obtain b cb1 where io: "isOpen (now_sel env i) cb (provider p) mt = (b, cb1)"
    by (cases "isOpen (now_sel env i) cb (provider p) mt")
  have n1: "not_open cb1 k"
    using isOpen_keeps_not_open [OF Cons.prems, of "now_sel env i" "provider p" mt] io by simp
  note ih = Cons.IH [OF n1, of "Suc i"]
  show ?case
    using ih io by (cases b) (auto split: option.splits prod.splits)
qed

lemma score_candidate_Some:
  assumes "score_candidate pb tel mt opts p vr jr = Some s"
  shows "provider_sp s = p"
    and "costEstimate s = candidate_cost pb opts p vr"
    and "\<And>c. costEstimate s = Some c \<Longrightarrow> \<not> over_budget opts c"
  using assms
  by (auto simp: score_candidate_def Let_def split: if_splits option.splits)

lemma select_loop_filters:
  assumes "s \<in> set (fst (select_loop pb tel mt opts env i ps cb))"
  shows "not_open (snd (select_loop pb tel mt opts env i ps cb)) (key (provider (provider_sp s)) mt)
       \<and> (\<forall>c. costEstimate s = Some c \<longrightarrow> \<not> over_budget opts c)
       \<and> provider_sp s \<in> set ps"
  using assms
proof (induction ps arbitrary: i cb)
  case Nil
  then show ?case by simp
next
  case (Cons p ps)
  obtain b cb1 where io: "isOpen (now_sel env i) cb (provider p) mt = (b, cb1)"
    by (cases "isOpen (now_sel env i) cb (provider p) mt")
  obtain rest cb2 where rec: "select_loop pb tel mt opts env (Suc i) ps cb1 = (rest, cb2)"
    by (cases "select_loop pb tel mt opts env (Suc i) ps cb1")
  show ?case
  proof (cases b)
    case True
    then have eq: "select_loop pb tel mt opts env i (p # ps) cb = (rest, cb2)"
      using io rec by simp
    from Cons.prems have "s \<in> set (fst (select_loop pb tel mt opts env (Suc i) ps cb1))"
      using eq rec by simp
    from Cons.IH [OF this] show ?thesis
      using eq rec by simp
  next
    case False
    then have nb: "\<not> b" .
    show ?thesis
    proof (cases "score_candidate pb tel mt opts p (variance_rnd env i) (jitter_rnd env i)")
      case None
      then have eq: "select_loop pb tel mt opts env i (p # ps) cb = (rest, cb2)"
        using io rec nb by simp
      from Cons.prems have "s \<in> set (fst (select_loop pb tel mt opts env (Suc i) ps cb1))"
        using eq rec by simp
      from Cons.IH [OF this] show ?thesis
        using eq rec by simp
    next
      case (Some s0)
      then have eq: "select_loop pb tel mt opts env i (p # ps) cb = (s0 # rest, cb2)"
        using io rec nb by simp
      show ?thesis
      proof (cases "s = s0")
        case True
        have n1: "not_open cb1 (key (provider p) mt)"
          using io nb isOpen_False_not_open by simp
        have n2: "not_open cb2 (key (provider p) mt)"
          using select_loop_keeps_not_open [OF n1, of pb tel mt opts env "Suc i" ps] rec by simp
        show ?thesis
          using True eq n2 score_candidate_Some [OF Some] by simp
      next
        case False
        with Cons.prems eq rec
        have "s \<in> set (fst (select_loop pb tel mt opts env (Suc i) ps cb1))" by simp
        from Cons.IH [OF this] show ?thesis
          using eq rec by simp
      qed
    qed
  qed
qed

text \<open>
  What the filters of \<open>select\<close> do guarantee: every entry of the ranking is one of the
  candidates; after the call its circuit is not in the open state; and when the session
  budget is given and is not \<open>0\<close>, an entry whose estimate is a number, ranked against a
  spent amount that is a number, has \<open>totalUSD \<le> sessionBudget - sessionSpent\<close>.
\<close>

lemma set_sort_scored:
  assumes "conforming_sort env \<or> list_all (\<lambda>s. score s \<noteq> NaN) scored"
  shows "set (sort_scored env scored) = set scored"
proof -
  have "mset (sort_scored env scored) = mset scored"
    using assms by (auto simp: sort_scored_def conforming_sort_def)
  then show ?thesis by (rule mset_eq_setD)
qed

lemma select_filters:
  assumes "s \<in> set (fst (select_loop pb tel mt opts env 0 providers cb))"
  shows "not_open (snd (select pb tel cb env mt providers opts))
             (key (provider (provider_sp s)) mt)
       \<and> (\<forall>b t sp. sessionBudget_opt opts = Some b \<and> b \<noteq> 0 \<and>
             map_option totalUSD (costEstimate s) = Some (Num t) \<and>
             dflt (Num 0) (sessionSpent_opt opts) = Num sp \<longrightarrow> t \<le> b - sp)
       \<and> provider_sp s \<in> set providers"
proof -
  obtain scored cb1 where l: "select_loop pb tel mt opts env 0 providers cb = (scored, cb1)"
    by (cases "select_loop pb tel mt opts env 0 providers cb")
  from select_loop_filters [OF assms]
  have a: "not_open cb1 (key (provider (provider_sp s)) mt)"
    and b: "\<forall>c. costEstimate s = Some c \<longrightarrow> \<not> over_budget opts c"
    and c: "provider_sp s \<in> set providers"
    by (simp_all add: l)
  have "\<forall>b t sp. sessionBudget_opt opts = Some b \<and> b \<noteq> 0 \<and>
             map_option totalUSD (costEstimate s) = Some (Num t) \<and>
             dflt (Num 0) (sessionSpent_opt opts) = Num sp \<longrightarrow> t \<le> b - sp"
    using b by (auto simp: over_budget_def)
  with a c show ?thesis by (simp add: select_def l)
qed

lemmas select_eval = select_def sort_scored_def numeric_scores_def score_value_def
  isOpen_def new_CircuitBreaker_def new_Telemetry_def score_candidate_def over_budget_def
  effectiveCostWeight_def isShort_def getStats_def candidate_cost_def no_options_def dflt_def
  estimateCostWithVariance_def estimateCost_def estimateTokens_def getModelCosts_def
  costs_at_def object_prototype_names_def example_book_def still_env_def Let_def

text \<open>
  Claim C1. The claim says that, when a session budget is configured, every returned
  candidate that carries a cost estimate has \<open>totalUSD \<le> sessionBudget - sessionSpent\<close>.
  The guard of the ceiling, \<open>if (sessionBudget)\<close>, is false for a configured budget of
  \<open>0\<close>: with budget 0 and nothing spent the ranking keeps provider \<open>A\<close>, whose estimate
  is 0.000027 USD, more than the remaining budget \<open>0 - 0\<close>.
\<close>

theorem select_zero_budget_no_ceiling:
  "sessionBudget_opt zero_budget_options = Some 0
 \<and> dflt (Num 0) (sessionSpent_opt zero_budget_options) = Num 0
 \<and> ranked_names (fst (select example_book (new_Telemetry 200)
       (new_CircuitBreaker \<lparr>failureThreshold = 3, coolOffMs = 60000\<rparr>) still_env ''T''
       [costed_provider] zero_budget_options)) = [''A'']
 \<and> ranked_totals (fst (select example_book (new_Telemetry 200)
       (new_CircuitBreaker \<lparr>failureThreshold = 3, coolOffMs = 60000\<rparr>) still_env ''T''
       [costed_provider] zero_budget_options)) = [Some (Num 0.000027)]
 \<and> \<not> jle (Num 0.000027) (jsub (Num 0) (Num 0))"
  by (simp add: ranked_names_def ranked_totals_def select_eval costed_provider_def
        costed_caps_def zero_budget_options_def)

text \<open>
  The ceiling also lets an estimate through that is \<open>NaN\<close>, since \<open>NaN > remaining\<close> is
  false: with a budget of 0.0000001 USD the ranking keeps provider \<open>D\<close>, whose cost block
  names the model \<open>constructor\<close>.
\<close>

lemma select_nan_estimate_passes_ceiling:
  "ranked_names (fst (select example_book (new_Telemetry 200)
       (new_CircuitBreaker \<lparr>failureThreshold = 3, coolOffMs = 60000\<rparr>) still_env ''T''
       [inherited_provider] tiny_budget_options)) = [''D'']"
  "ranked_totals (fst (select example_book (new_Telemetry 200)
       (new_CircuitBreaker \<lparr>failureThreshold = 3, coolOffMs = 60000\<rparr>) still_env ''T''
       [inherited_provider] tiny_budget_options)) = [Some NaN]"
  "\<not> jle NaN (jsub (Num 0.0000001) (Num 0))"
  by (simp_all add: ranked_names_def ranked_totals_def select_eval inherited_provider_def
        tiny_budget_options_def)

section \<open>Routing policy: determinism\<close>

lemma score_candidate_no_jitter:
  assumes "explorationEpsilon opts = Some 0"
  shows "score_candidate pb tel mt opts p vr jr = score_candidate pb tel mt opts p vr jr'"
  using assms by (simp add: score_candidate_def Let_def dflt_def)

lemma isOpen_not_open:
  assumes "not_open cb (key p m)"
  shows "isOpen now cb p m = (False, cb)"
  using assms by (auto simp: isOpen_def not_open_def split: option.splits)

lemma select_loop_same_draws:
  assumes "explorationEpsilon opts = Some 0"
    and "variance_rnd env1 = variance_rnd env2"
    and "now_sel env1 = now_sel env2"
  shows "select_loop pb tel mt opts env1 i ps cb = select_loop pb tel mt opts env2 i ps cb"
proof (induction ps arbitrary: i cb)
  case Nil
  show ?case by simp
next
  case (Cons p ps)
  have sc: "score_candidate pb tel mt opts p (variance_rnd env1 i) (jitter_rnd env1 i) =
            score_candidate pb tel mt opts p (variance_rnd env2 i) (jitter_rnd env2 i)"
    using score_candidate_no_jitter [OF assms(1)] assms(2) by simp
  show ?case
    by (auto simp add: assms(3) sc Cons.IH split: prod.splits bool.splits option.splits)
qed

lemma select_loop_closed_circuits:
  assumes "explorationEpsilon opts = Some 0"
    and "variance_rnd env1 = variance_rnd env2"
    and "\<forall>p \<in> set ps. not_open cb (key (provider p) mt)"
  shows "select_loop pb tel mt opts env1 i ps cb = select_loop pb tel mt opts env2 i ps cb
       \<and> snd (select_loop pb tel mt opts env1 i ps cb) = cb"
  using assms(3)
proof (induction ps arbitrary: i)
  case Nil
  show ?case by simp
next
  case (Cons p ps)
  have sc: "score_candidate pb tel mt opts p (variance_rnd env1 i) (jitter_rnd env1 i) =
            score_candidate pb tel mt opts p (variance_rnd env2 i) (jitter_rnd env2 i)"
    using score_candidate_no_jitter [OF assms(1)] assms(2) by simp
  have o1: "isOpen (now_sel env1 i) cb (provider p) mt = (False, cb)"
    and o2: "isOpen (now_sel env2 i) cb (provider p) mt = (False, cb)"
    using Cons.prems by (simp_all add: isOpen_not_open)
  from Cons.prems have "\<forall>p \<in> set ps. not_open cb (key (provider p) mt)" by simp
  from Cons.IH [OF this, of "Suc i"] show ?case
    by (auto simp add: o1 o2 sc split: option.splits prod.splits)
qed

text \<open>
  With \<open>explorationEpsilon = 0\<close> the exploration draws have no effect: two runs that
  see the same variance draws, the same engine and either the same clock or no open
  circuit return the same ranking and leave the same breaker.
\<close>

lemma select_without_exploration:
  assumes "explorationEpsilon opts = Some 0"
    and "variance_rnd env1 = variance_rnd env2"
    and "engine_sort env1 = engine_sort env2"
    and "now_sel env1 = now_sel env2 \<or> (\<forall>p \<in> set providers. not_open cb (key (provider p) mt))"
  shows "select pb tel cb env1 mt providers opts = select pb tel cb env2 mt providers opts"
proof -
  have "select_loop pb tel mt opts env1 0 providers cb =
        select_loop pb tel mt opts env2 0 providers cb"
    using assms(4) select_loop_same_draws [OF assms(1,2)]
      select_loop_closed_circuits [OF assms(1,2)] by blast
  moreover have "sort_scored env1 = sort_scored env2"
    by (rule ext) (simp add: sort_scored_def assms(3))
  ultimately show ?thesis by (simp add: select_def)
qed

lemma estimateTokens_50: "estimateTokens 50 4 = 13"
  by (simp add: estimateTokens_def round64_eval)

text \<open>
  Claim C10. The claim says that with \<open>explorationEpsilon = 0\<close> and the cost variance
  disabled two runs of \<open>select\<close> on the same input return the same ordering. \<open>select\<close>
  calls \<open>estimateCostWithVariance\<close> for every candidate with a cost block, whatever the
  options, so the variance cannot be disabled. For the candidates \<open>A\<close> and \<open>C\<close>, which
  differ in their name only, with \<open>explorationEpsilon = 0\<close>, the same telemetry, breaker,
  options, clock and exploration draws, the run whose variance draws are 0.1 and 0.9
  ranks \<open>A\<close> before \<open>C\<close> and the run whose draws are 0.9 and 0.1 ranks \<open>C\<close> before \<open>A\<close>.
\<close>

theorem select_variance_changes_ranking:
  "explorationEpsilon test_options = Some 0
 \<and> now_sel low_high_env = now_sel high_low_env
 \<and> jitter_rnd low_high_env = jitter_rnd high_low_env
 \<and> engine_sort low_high_env = engine_sort high_low_env
 \<and> ranked_names (fst (select example_book (new_Telemetry 200)
       (new_CircuitBreaker \<lparr>failureThreshold = 3, coolOffMs = 1000\<rparr>) low_high_env ''T''
       [costed_provider, rival_provider] test_options)) = [''A'', ''C'']
 \<and> ranked_names (fst (select example_book (new_Telemetry 200)
       (new_CircuitBreaker \<lparr>failureThreshold = 3, coolOffMs = 1000\<rparr>) high_low_env ''T''
       [costed_provider, rival_provider] test_options)) = [''C'', ''A'']"
  by (simp add: ranked_names_def select_def sort_scored_def numeric_scores_def score_value_def
        isOpen_def new_CircuitBreaker_def new_Telemetry_def score_candidate_def over_budget_def
        effectiveCostWeight_def isShort_def getStats_def candidate_cost_def no_options_def
        dflt_def estimateCostWithVariance_def estimateCost_def estimateTokens_50
        getModelCosts_def costs_at_def object_prototype_names_def example_book_def
        still_env_def Let_def low_high_env_def high_low_env_def
        costed_provider_def rival_provider_def costed_caps_def test_options_def)

section \<open>Router: a dispatch with an empty ranking\<close>

lemma promoted_only_refl: "promoted_only cb cb"
  by (simp add: promoted_only_def)

lemma promoted_only_isOpen: "promoted_only cb (snd (isOpen now cb p m))"
  by (auto simp: promoted_only_def isOpen_def split: option.splits)

lemma promoted_only_trans:
  assumes "promoted_only a b" and "promoted_only b c"
  shows "promoted_only a c"
  unfolding promoted_only_def
proof (intro conjI allI)
  show "options c = options a"
    using assms by (simp add: promoted_only_def)
next
  fix k
  from assms(1) have ab: "map_cb b k = map_cb a k \<or>
      (\<exists>e. map_cb a k = Some e \<and> state e = Open \<and> map_cb b k = Some (e\<lparr>state := HalfOpen\<rparr>))"
    by (simp add: promoted_only_def)
  from assms(2) have bc: "map_cb c k = map_cb b k \<or>
      (\<exists>e. map_cb b k = Some e \<and> state e = Open \<and> map_cb c k = Some (e\<lparr>state := HalfOpen\<rparr>))"
    by (simp add: promoted_only_def)
  from ab show "map_cb c k = map_cb a k \<or>
      (\<exists>e. map_cb a k = Some e \<and> state e = Open \<and> map_cb c k = Some (e\<lparr>state := HalfOpen\<rparr>))"
  proof (elim disjE exE conjE)
    assume eq: "map_cb b k = map_cb a k"
    from bc show ?thesis by (simp add: eq)
  next
    fix e
    assume a: "map_cb a k = Some e" "state e = Open"
      "map_cb b k = Some (e\<lparr>state := HalfOpen\<rparr>)"
    from bc a(3) have "map_cb c k = map_cb b k" by auto
    then show ?thesis using a by simp
  qed
qed

lemma promoted_only_select_loop:
  "promoted_only cb (snd (select_loop pb tel mt opts env i ps cb))"
proof (induction ps arbitrary: i cb)
  case Nil
  show ?case by (simp add: promoted_only_refl)
next
  case (Cons p ps)
  obtain b cb1 where io: "isOpen (now_sel env i) cb (provider p) mt = (b, cb1)"
    by (cases "isOpen (now_sel env i) cb (provider p) mt")
  have p1: "promoted_only cb cb1"
    using promoted_only_isOpen [of cb "now_sel env i" "provider p" mt] io by simp
  have p2: "promoted_only cb1 (snd (select_loop pb tel mt opts env (Suc i) ps cb1))"
    by (rule Cons.IH)
  have "snd (select_loop pb tel mt opts env i (p # ps) cb) =
        snd (select_loop pb tel mt opts env (Suc i) ps cb1)"
    using io by (cases b) (auto split: option.splits prod.splits)
  then show ?case
    using promoted_only_trans [OF p1 p2] by simp
qed

lemma promoted_only_select:
  "promoted_only cb (snd (select pb tel cb env mt ps opts))"
  using promoted_only_select_loop [of cb pb tel mt opts env 0 ps]
  by (cases "select_loop pb tel mt opts env 0 ps cb") (simp add: select_def)

lemma dispatch_ranking_handlers [simp]:
  "dispatch_ranking pb reg (env\<lparr>attempt_env := handlers\<rparr>) r mt params policyOptions providerHint
   = dispatch_ranking pb reg env r mt params policyOptions providerHint"
  by (simp add: dispatch_ranking_def)

lemma dispatch_empty_ranking:
  assumes "candidates_for reg mt providerHint \<noteq> []"
    and "fst (dispatch_ranking pb reg env r mt params policyOptions providerHint) = []"
  shows "useModelWithInfo pb reg env r mt params policyOptions providerHint =
           (Inl AllUnavailable,
            r\<lparr>circuit := snd (dispatch_ranking pb reg env r mt params policyOptions providerHint)\<rparr>)"
proof -
  obtain scored cb1 where sel:
    "select pb (telemetry r) (circuit r) (sel_env env) mt (candidates_for reg mt providerHint)
       (ranking_options r params policyOptions) = (scored, cb1)"
    by (cases "select pb (telemetry r) (circuit r) (sel_env env) mt
                 (candidates_for reg mt providerHint) (ranking_options r params policyOptions)")
  from assms(2) have e: "scored = []"
    by (simp add: dispatch_ranking_def sel)
  show ?thesis
    using assms(1) by (simp add: useModelWithInfo_def dispatch_ranking_def sel e)
qed

text \<open>
  Claim C8, amended. When the ranking of a dispatch is empty, the dispatch fails with
  \<open>AllUnavailable\<close>; no handler is called (the outcome does not depend on what the
  handlers would do); telemetry and the session ledger are unchanged; no \<open>onSuccess\<close> or
  \<open>onFailure\<close> is applied to the breaker, whose only possible change is the promotion of
  open entries to half-open made by the \<open>isOpen\<close> queries of the ranking.
\<close>

theorem dispatch_all_unavailable:
  assumes "candidates_for reg mt providerHint \<noteq> []"
    and "fst (dispatch_ranking pb reg env r mt params policyOptions providerHint) = []"
  shows "fst (useModelWithInfo pb reg env r mt params policyOptions providerHint)
           = Inl AllUnavailable
       \<and> telemetry (snd (useModelWithInfo pb reg env r mt params policyOptions providerHint))
           = telemetry r
       \<and> sessionSpent (snd (useModelWithInfo pb reg env r mt params policyOptions providerHint))
           = sessionSpent r
       \<and> circuit (snd (useModelWithInfo pb reg env r mt params policyOptions providerHint))
           = snd (dispatch_ranking pb reg env r mt params policyOptions providerHint)
       \<and> promoted_only (circuit r)
           (circuit (snd (useModelWithInfo pb reg env r mt params policyOptions providerHint)))
       \<and> useModelWithInfo pb reg (env\<lparr>attempt_env := handlers\<rparr>) r mt params policyOptions
             providerHint
           = useModelWithInfo pb reg env r mt params policyOptions providerHint"
proof -
  note u = dispatch_empty_ranking [OF assms]
  have "fst (dispatch_ranking pb reg (env\<lparr>attempt_env := handlers\<rparr>) r mt params policyOptions
               providerHint) = []"
    using assms(2) by simp
  note u' = dispatch_empty_ranking [OF assms(1) this]
  have p: "promoted_only (circuit r)
             (snd (dispatch_ranking pb reg env r mt params policyOptions providerHint))"
    unfolding dispatch_ranking_def by (rule promoted_only_select)
  show ?thesis
    using p by (simp add: u u')
qed

lemma example_candidates:
  "candidates_for example_registry ''T'' None = [costed_provider]"
  by (simp add: candidates_for_def getProviders_def example_registry_def registerModel_def
        new_ModelRegistry_def costed_provider_def Let_def)

lemma tripped_router_ranking:
  "dispatch_ranking example_book example_registry resolving_env tripped_router ''T''
     hello_params no_options None
   = ([], (circuit tripped_router)\<lparr>map_cb := (map_cb (circuit tripped_router))
            (key ''A'' ''T'' \<mapsto> \<lparr>state = HalfOpen, consecutiveFailures = 3,
                                  openedAt = Some 1002\<rparr>)\<rparr>)"
  by (simp add: dispatch_ranking_def select_eval example_candidates
        ranking_options_def derived_promptLength_def hello_params_def
        tripped_router_def new_Router_def default_router_options_def
        failures_def onFailure_def fresh_entry_def resolving_env_def
        costed_provider_def costed_caps_def)

lemma tripped_router_candidates:
  "candidates_for example_registry ''T'' None \<noteq> []"
  by (simp add: example_candidates)

lemma tripped_router_entry:
  "map_cb (circuit tripped_router) (key ''A'' ''T'') =
     Some \<lparr>state = Open, consecutiveFailures = 3, openedAt = Some 1002\<rparr>"
  by (simp add: tripped_router_def new_Router_def default_router_options_def dflt_def
        new_CircuitBreaker_def failures_def onFailure_def fresh_entry_def Let_def)

theorem dispatch_all_unavailable_witness:
  "fst (useModelWithInfo example_book example_registry resolving_env tripped_router ''T''
          hello_params no_options None) = Inl AllUnavailable
 \<and> telemetry (snd (useModelWithInfo example_book example_registry resolving_env tripped_router
          ''T'' hello_params no_options None)) = telemetry tripped_router
 \<and> sessionSpent (snd (useModelWithInfo example_book example_registry resolving_env
          tripped_router ''T'' hello_params no_options None)) = sessionSpent tripped_router
 \<and> useModelWithInfo example_book example_registry
          (resolving_env\<lparr>attempt_env := attempt_env rejecting_env\<rparr>) tripped_router ''T''
          hello_params no_options None
     = useModelWithInfo example_book example_registry resolving_env tripped_router ''T''
          hello_params no_options None"
proof -
  have e: "fst (dispatch_ranking example_book example_registry resolving_env tripped_router ''T''
             hello_params no_options None) = []"
    by (simp add: tripped_router_ranking)
  from dispatch_all_unavailable [OF tripped_router_candidates e,
      of "attempt_env rejecting_env"]
  show ?thesis by blast
qed

text \<open>
  Claim C8 as stated fails where it says that no circuit-breaker transition occurs. The
  router below has provider \<open>A\<close> open since clock reading 1002 with a cool-off of 50 ms;
  at clock reading 2000 the \<open>isOpen\<close> query of the ranking promotes the entry to
  half-open, the budget ceiling then excludes the provider, the ranking is empty and the
  dispatch fails with \<open>AllUnavailable\<close>, leaving the entry half-open.
\<close>

theorem dispatch_all_unavailable_counterexample:
  "fst (dispatch_ranking example_book example_registry resolving_env tripped_router ''T''
          hello_params no_options None) = []
 \<and> fst (useModelWithInfo example_book example_registry resolving_env tripped_router ''T''
          hello_params no_options None) = Inl AllUnavailable
 \<and> map_cb (circuit tripped_router) (key ''A'' ''T'') =
      Some \<lparr>state = Open, consecutiveFailures = 3, openedAt = Some 1002\<rparr>
 \<and> map_cb (circuit (snd (useModelWithInfo example_book example_registry resolving_env
          tripped_router ''T'' hello_params no_options None))) (key ''A'' ''T'') =
      Some \<lparr>state = HalfOpen, consecutiveFailures = 3, openedAt = Some 1002\<rparr>"
proof -
  have e: "fst (dispatch_ranking example_book example_registry resolving_env tripped_router ''T''
             hello_params no_options None) = []"
    by (simp add: tripped_router_ranking)
  note u = dispatch_empty_ranking [OF tripped_router_candidates e]
  show ?thesis
    by (simp add: u tripped_router_entry) (simp add: tripped_router_ranking)
qed

section \<open>Router: the session ledger\<close>

text \<open>Registrations are distinct objects.\<close>

lemma distinct_map_mset: "mset xs = mset ys \<Longrightarrow> distinct (map f xs) = distinct (map f ys)"
  by (metis mset_map mset_eq_imp_distinct_iff)

lemma registered_inv: "registered reg \<Longrightarrow> registry_inv reg"
proof (induction rule: registered.induct)
  case g_new
  show ?case by (simp add: registry_inv_def new_ModelRegistry_def)
next
  case (g_registerModel reg mt prov prio caps)
  define ps0 where "ps0 = (case modelTypeToProviders reg mt of None \<Rightarrow> [] | Some ps \<Rightarrow> ps)"
  define n where "n = \<lparr>ident = allocated reg, modelType = mt, provider = prov,
                          priority = Some (case prio of None \<Rightarrow> 0 | Some x \<Rightarrow> x),
                          capabilities = caps\<rparr>"
  define new where "new = sort_key (\<lambda>p. - (case priority p of None \<Rightarrow> 0 | Some x \<Rightarrow> x)) (ps0 @ [n])"
  have reg1: "registerModel reg mt prov prio caps =
      \<lparr>modelTypeToProviders = (modelTypeToProviders reg)(mt \<mapsto> new),
       allocated = Suc (allocated reg)\<rparr>"
    by (simp add: registerModel_def ps0_def n_def new_def)
  have old: "(\<forall>p \<in> set ps0. ident p < allocated reg) \<and> distinct (map ident ps0)"
    using g_registerModel.IH by (auto simp: registry_inv_def ps0_def split: option.splits)
  have m: "mset new = mset (ps0 @ [n])" by (simp add: new_def)
  have s: "set new = set ps0 \<union> {n}" by (simp add: new_def)
  have "distinct (map ident (ps0 @ [n]))"
    using old by (auto simp: n_def)
  then have d: "distinct (map ident new)"
    using distinct_map_mset [OF m, of ident] by simp
  have b: "\<forall>p \<in> set new. ident p < Suc (allocated reg)"
    using old by (auto simp: s n_def less_Suc_eq)
  show ?case
    unfolding registry_inv_def reg1
  proof (intro allI impI)
    fix mt' ps
    assume a: "modelTypeToProviders
                 \<lparr>modelTypeToProviders = (modelTypeToProviders reg)(mt \<mapsto> new),
                  allocated = Suc (allocated reg)\<rparr> mt' = Some ps"
    show "(\<forall>p\<in>set ps. ident p < allocated
                 \<lparr>modelTypeToProviders = (modelTypeToProviders reg)(mt \<mapsto> new),
                  allocated = Suc (allocated reg)\<rparr>) \<and> distinct (map ident ps)"
    proof (cases "mt' = mt")
      case True
      with a have "ps = new" by simp
      with b d show ?thesis by simp
    next
      case False
      with a have "modelTypeToProviders reg mt' = Some ps" by simp
      with g_registerModel.IH
      have "(\<forall>p \<in> set ps. ident p < allocated reg) \<and> distinct (map ident ps)"
        by (simp add: registry_inv_def)
      then show ?thesis by (auto simp: less_Suc_eq)
    qed
  qed
next
  case (g_clear reg)
  then show ?case by (simp add: registry_inv_def clear_reg_def)
qed

lemma candidates_distinct:
  assumes "registered reg"
  shows "distinct (map ident (candidates_for reg mt providerHint))"
proof -
  have "distinct (map ident (getProviders reg mt))"
    using registered_inv [OF assms]
    by (auto simp: registry_inv_def getProviders_def split: option.splits)
  then show ?thesis
    by (auto simp: candidates_for_def distinct_map_filter split: option.splits)
qed

lemma select_loop_distinct:
  assumes "distinct (map ident ps)"
  shows "distinct (map (\<lambda>s. ident (provider_sp s))
            (fst (select_loop pb tel mt opts env i ps cb)))"
  using assms
proof (induction ps arbitrary: i cb)
  case Nil
  then show ?case by simp
next
  case (Cons p ps)
  obtain b cb1 where io: "isOpen (now_sel env i) cb (provider p) mt = (b, cb1)"
    by (cases "isOpen (now_sel env i) cb (provider p) mt")
  obtain rest cb2 where rec: "select_loop pb tel mt opts env (Suc i) ps cb1 = (rest, cb2)"
    by (cases "select_loop pb tel mt opts env (Suc i) ps cb1")
  from Cons.prems have dps: "distinct (map ident ps)" and np: "ident p \<notin> ident ` set ps"
    by simp_all
  have ih: "distinct (map (\<lambda>s. ident (provider_sp s)) rest)"
    using Cons.IH [OF dps, of "Suc i" cb1] rec by simp
  have sub: "\<And>s. s \<in> set rest \<Longrightarrow> provider_sp s \<in> set ps"
    using select_loop_filters [of _ pb tel mt opts env "Suc i" ps cb1] rec by simp
  show ?case
  proof (cases "score_candidate pb tel mt opts p (variance_rnd env i) (jitter_rnd env i)")
    case None
    with io rec ih show ?thesis by (cases b) simp_all
  next
    case (Some s0)
    have p0: "provider_sp s0 = p" by (rule score_candidate_Some(1) [OF Some])
    have "ident p \<notin> (\<lambda>s. ident (provider_sp s)) ` set rest"
      using sub np by auto
    with Some io rec ih p0 show ?thesis by (cases b) simp_all
  qed
qed

lemma mset_sort_scored:
  "conforming_sort env \<Longrightarrow> mset (sort_scored env scored) = mset scored"
  by (simp add: sort_scored_def conforming_sort_def)

lemma select_distinct:
  assumes "distinct (map ident ps)" and "conforming_sort env"
  shows "distinct (map provider_sp (fst (select pb tel cb env mt ps opts)))"
proof -
  obtain scored cb1 where l: "select_loop pb tel mt opts env 0 ps cb = (scored, cb1)"
    by (cases "select_loop pb tel mt opts env 0 ps cb")
  have "distinct (map (\<lambda>s. ident (provider_sp s)) scored)"
    using select_loop_distinct [OF assms(1), of pb tel mt opts env 0 cb] l by simp
  then have "distinct (map (\<lambda>s. ident (provider_sp s)) (sort_scored env scored))"
    by (simp add: distinct_map_mset [OF mset_sort_scored [OF assms(2)]])
  then have "distinct (map ident (map provider_sp (sort_scored env scored)))"
    by (simp add: comp_def)
  then have "distinct (map provider_sp (sort_scored env scored))"
    by (auto simp: distinct_map intro: inj_on_imageI2)
  then show ?thesis by (simp add: select_def l)
qed

lemma find_distinct_nth:
  assumes "distinct (map f xs)" and "j < length xs"
  shows "find (\<lambda>s. f s = f (xs ! j)) xs = Some (xs ! j)"
proof -
  have "\<And>k. k < j \<Longrightarrow> f (xs ! k) \<noteq> f (xs ! j)"
  proof -
    fix k assume "k < j"
    with assms(2) have "k < length (map f xs)" "j < length (map f xs)" "k \<noteq> j" by simp_all
    then show "f (xs ! k) \<noteq> f (xs ! j)"
      using nth_eq_iff_index_eq [OF assms(1), of k j] by simp
  qed
  with assms(2) show ?thesis
    by (auto simp: find_Some_iff)
qed

text \<open>
  The attempts: a failed attempt leaves the ledger as it is; the attempt that succeeds
  is the first whose handler call resolves, it is made with the entry of the ranking at
  its position, and it charges the ledger with the estimate found for that entry.
\<close>

lemma attempt_loop_error:
  assumes "attempt_loop env mt scored k lastError ranked r = (Inl x, r1)"
  shows "sessionSpent r1 = sessionSpent r"
  using assms
proof (induction ranked arbitrary: k lastError r)
  case Nil
  then show ?case by simp
next
  case (Cons rp rest)
  show ?case
  proof (cases "int k > maxRetries r")
    case True
    with Cons.prems show ?thesis by simp
  next
    case False
    show ?thesis
    proof (cases "withTimeout (handler_does (attempt_env env k)) (perCallTimeoutMs r)")
      case (Inr v)
      with Cons.prems False show ?thesis by (simp add: Let_def)
    next
      case (Inl err)
      define r2 where "r2 = r\<lparr>telemetry := record_tel (telemetry r)
                          \<lparr>provider_rec = provider rp, modelType_rec = mt,
                           latencyMs = t_latency (attempt_env env k) - t_start (attempt_env env k),
                           timestamp = t_stamp (attempt_env env k),
                           outcome = (if isTimeout err then Timeout else Failure)\<rparr>,
                   circuit := onFailure (t_failure (attempt_env env k)) (circuit r) (provider rp) mt\<rparr>"
      from Cons.prems False Inl
      have step: "attempt_loop env mt scored (Suc k) (Some err) rest r2 = (Inl x, r1)"
        by (simp add: Let_def r2_def)
      have sp: "sessionSpent r2 = sessionSpent r" by (simp add: r2_def)
      from Cons.IH [OF step] show ?thesis
        unfolding sp .
    qed
  qed
qed

lemma attempt_loop_success:
  assumes "attempt_loop env mt scored k lastError ranked r = (Inr ok, r1)"
  shows "\<exists>j < length ranked.
           int (k + j) \<le> maxRetries r
         \<and> (\<forall>i < j. \<exists>e. attempt_outcome env r (k + i) = Inl e)
         \<and> attempt_outcome env r (k + j) = Inr (result_ok ok)
         \<and> provider_ok ok = provider (ranked ! j)
         \<and> costEstimate_ok ok =
             (case find (\<lambda>s. provider_sp s = ranked ! j) scored of
                None \<Rightarrow> None | Some s \<Rightarrow> costEstimate s)
         \<and> sessionSpent r1 = charged (sessionSpent r) (costEstimate_ok ok)"
  using assms
proof (induction ranked arbitrary: k lastError r)
  case Nil
  then show ?case by simp
next
  case (Cons rp rest)
  show ?case
  proof (cases "int k > maxRetries r")
    case True
    with Cons.prems show ?thesis by simp
  next
    case False
    show ?thesis
    proof (cases "withTimeout (handler_does (attempt_env env k)) (perCallTimeoutMs r)")
      case (Inr v)
      with Cons.prems False
      have "int (k + 0) \<le> maxRetries r
         \<and> (\<forall>i < 0. \<exists>e. attempt_outcome env r (k + i) = Inl e)
         \<and> attempt_outcome env r (k + 0) = Inr (result_ok ok)
         \<and> provider_ok ok = provider ((rp # rest) ! 0)
         \<and> costEstimate_ok ok =
             (case find (\<lambda>s. provider_sp s = (rp # rest) ! 0) scored of
                None \<Rightarrow> None | Some s \<Rightarrow> costEstimate s)
         \<and> sessionSpent r1 = charged (sessionSpent r) (costEstimate_ok ok)"
        by (auto simp: Let_def attempt_outcome_def charged_def)
      then show ?thesis by (intro exI [of _ 0]) simp
    next
      case (Inl err)
      define r2 where "r2 = r\<lparr>telemetry := record_tel (telemetry r)
                          \<lparr>provider_rec = provider rp, modelType_rec = mt,
                           latencyMs = t_latency (attempt_env env k) - t_start (attempt_env env k),
                           timestamp = t_stamp (attempt_env env k),
                           outcome = (if isTimeout err then Timeout else Failure)\<rparr>,
                   circuit := onFailure (t_failure (attempt_env env k)) (circuit r) (provider rp) mt\<rparr>"
      from Cons.prems False Inl
      have step: "attempt_loop env mt scored (Suc k) (Some err) rest r2 = (Inr ok, r1)"
        by (simp add: Let_def r2_def)
      have same: "sessionSpent r2 = sessionSpent r" "maxRetries r2 = maxRetries r"
        "\<And>i. attempt_outcome env r2 i = attempt_outcome env r i"
        by (simp_all add: r2_def attempt_outcome_def)
      from Cons.IH [OF step] obtain j where j: "j < length rest"
        "int (Suc k + j) \<le> maxRetries r"
        "\<forall>i < j. \<exists>e. attempt_outcome env r (Suc k + i) = Inl e"
        "attempt_outcome env r (Suc k + j) = Inr (result_ok ok)"
        "provider_ok ok = provider (rest ! j)"
        "costEstimate_ok ok =
             (case find (\<lambda>s. provider_sp s = rest ! j) scored of
                None \<Rightarrow> None | Some s \<Rightarrow> costEstimate s)"
        "sessionSpent r1 = charged (sessionSpent r) (costEstimate_ok ok)"
        unfolding same by blast
      have first: "attempt_outcome env r k = Inl err"
        using Inl by (simp add: attempt_outcome_def)
      have before: "\<forall>i < Suc j. \<exists>e. attempt_outcome env r (k + i) = Inl e"
      proof (intro allI impI)
        fix i assume "i < Suc j"
        show "\<exists>e. attempt_outcome env r (k + i) = Inl e"
        proof (cases i)
          case 0
          with first show ?thesis by simp
        next
          case (Suc i')
          with \<open>i < Suc j\<close> j(3) show ?thesis by simp
        qed
      qed
      show ?thesis
        by (rule exI [of _ "Suc j"]) (use j before in simp)
    qed
  qed
qed

text \<open>
  For cost parameters in their ranges every estimate is a number that is not negative,
  and so is every score a number.
\<close>

lemma pow2_pos: "0 < pow2 e"
  by (simp add: pow2_def)

lemma round_half_even_nonneg: "0 \<le> r \<Longrightarrow> 0 \<le> round_half_even r"
  by (auto simp: round_half_even_def Let_def)

lemma round64_nonneg:
  assumes "0 \<le> x"
  shows "0 \<le> round64 x"
proof (cases "x = 0")
  case True
  then show ?thesis by (simp add: round64_def)
next
  case False
  define q where "q = pow2 (max (expo x) (- 1022) - 52)"
  have q: "0 < q" by (simp add: q_def pow2_pos)
  with assms have "0 \<le> x / q" by simp
  then have "0 \<le> round_half_even (x / q)" by (rule round_half_even_nonneg)
  with q have "0 \<le> q * of_int (round_half_even (x / q))" by simp
  with False show ?thesis by (simp add: round64_def Let_def q_def)
qed

lemma estimateTokens_nonneg:
  assumes "0 \<le> chars" and "0 < cpt"
  shows "0 \<le> estimateTokens chars cpt"
proof -
  from assms have "0 \<le> chars / cpt" by simp
  then have "0 \<le> round64 (chars / cpt)" by (rule round64_nonneg)
  then have "0 \<le> \<lceil>round64 (chars / cpt)\<rceil>" by linarith
  then show ?thesis by (simp add: estimateTokens_def)
qed

lemma getModelCosts_wf:
  assumes "wf_prices pb" and "costs_at pb n \<noteq> Some Inherited"
  shows "\<exists>c. getModelCosts pb n = Rates c \<and> wf_costs c"
  using assms
  by (auto simp: wf_prices_def getModelCosts_def costs_at_def split: option.splits if_splits)

lemma estimateCost_total_nonneg:
  assumes pc: "0 < promptChars params"
    and cpt: "\<And>x. charsPerToken params = Some x \<Longrightarrow> 0 < x"
    and fee: "\<And>f. requestFixedFeeUSD params = Some f \<Longrightarrow> 0 \<le> f"
    and disc: "\<And>d. discountFactor params = Some d \<Longrightarrow> 0 \<le> d"
    and wf: "wf_prices pb"
    and nm: "costs_at pb (simulatedModelName params) \<noteq> Some Inherited"
  shows "\<exists>t. totalUSD (estimateCost pb params) = Num t \<and> 0 \<le> t"
proof -
  define c where "c = (case charsPerToken params of None \<Rightarrow> 4 | Some c \<Rightarrow> c)"
  define f where "f = (case requestFixedFeeUSD params of None \<Rightarrow> 0 | Some f \<Rightarrow> f)"
  define d where "d = (case discountFactor params of None \<Rightarrow> 1 | Some d \<Rightarrow> d)"
  define inTok where "inTok = estimateTokens (promptChars params) c"
  define outTok where "outTok = (case expectedOutputTokens params of
                      None \<Rightarrow> max 1 (of_int \<lceil>inTok * 0.2\<rceil>)
                    | Some e \<Rightarrow> if e > 0 then e else max 1 (of_int \<lceil>inTok * 0.2\<rceil>))"
  from getModelCosts_wf [OF wf nm] obtain mc where
    mc: "getModelCosts pb (simulatedModelName params) = Rates mc" and wmc: "wf_costs mc"
    by blast
  have c0: "0 < c" using cpt by (auto simp: c_def split: option.splits)
  have f0: "0 \<le> f" using fee by (auto simp: f_def split: option.splits)
  have d0: "0 \<le> d" using disc by (auto simp: d_def split: option.splits)
  have i0: "0 \<le> inTok"
    unfolding inTok_def using pc c0 by (intro estimateTokens_nonneg) simp_all
  have o0: "0 \<le> outTok" by (auto simp: outTok_def split: option.splits)
  have m0: "0 \<le> input_rate mc" "0 \<le> output_rate mc"
    using wmc by (simp_all add: wf_costs_def)
  have t: "totalUSD (estimateCost pb params) =
        Num (((inTok / 1000) * input_rate mc + (outTok / 1000) * output_rate mc + f) * d)"
    unfolding outTok_def inTok_def f_def d_def c_def estimateCost_def Let_def mc by simp
  have "0 \<le> (inTok / 1000) * input_rate mc" using i0 m0 by simp
  moreover have "0 \<le> (outTok / 1000) * output_rate mc" using o0 m0 by simp
  ultimately have "0 \<le> (inTok / 1000) * input_rate mc + (outTok / 1000) * output_rate mc + f"
    using f0 by linarith
  then have "0 \<le> ((inTok / 1000) * input_rate mc + (outTok / 1000) * output_rate mc + f) * d"
    using d0 by (rule mult_nonneg_nonneg)
  with t show ?thesis by blast
qed

lemma variance_total_nonneg:
  assumes "0 \<le> rnd" and "totalUSD (estimateCost pb params) = Num t" and "0 \<le> t"
  shows "\<exists>u. totalUSD (estimateCostWithVariance pb params rnd) = Num u \<and> 0 \<le> u"
proof -
  have "0 \<le> 1 + (rnd - 0.5) * 0.1" using assms(1) by argo
  with assms(3) have "0 \<le> t * (1 + (rnd - 0.5) * 0.1)" by (rule mult_nonneg_nonneg)
  moreover have "totalUSD (estimateCostWithVariance pb params rnd) = Num (t * (1 + (rnd - 0.5) * 0.1))"
    using assms(2) by (simp add: estimateCostWithVariance_def Let_def)
  ultimately show ?thesis by blast
qed

lemma candidate_cost_nonneg:
  assumes "wf_prices pb" and "wf_provider pb p" and "0 \<le> rnd"
    and "candidate_cost pb opts p rnd = Some c"
  shows "\<exists>t. totalUSD c = Num t \<and> 0 \<le> t"
proof -
  from assms(4) obtain caps cc where caps: "capabilities p = Some caps" "cost caps = Some cc"
    and pl: "0 < dflt 0 (promptLength opts)"
    and c: "c = estimateCostWithVariance pb
                      \<lparr>promptChars = dflt 0 (promptLength opts),
                       expectedOutputTokens = expectedOutputTokens_opt opts,
                       simulatedModelName = simulatedModelName_cap cc,
                       charsPerToken = tokenCharsPerToken cc,
                       requestFixedFeeUSD = requestFixedFeeUSD_cap cc,
                       discountFactor = discountFactor_cap cc\<rparr> rnd"
    by (auto simp: candidate_cost_def split: option.splits if_splits)
  from assms(2) caps have wc: "wf_cost_caps pb cc" by (simp add: wf_provider_def)
  have "\<exists>t. totalUSD (estimateCost pb
                      \<lparr>promptChars = dflt 0 (promptLength opts),
                       expectedOutputTokens = expectedOutputTokens_opt opts,
                       simulatedModelName = simulatedModelName_cap cc,
                       charsPerToken = tokenCharsPerToken cc,
                       requestFixedFeeUSD = requestFixedFeeUSD_cap cc,
                       discountFactor = discountFactor_cap cc\<rparr>) = Num t \<and> 0 \<le> t"
    by (rule estimateCost_total_nonneg) (use pl wc assms(1) in \<open>simp_all add: wf_cost_caps_def\<close>)
  then obtain t where "totalUSD (estimateCost pb
                      \<lparr>promptChars = dflt 0 (promptLength opts),
                       expectedOutputTokens = expectedOutputTokens_opt opts,
                       simulatedModelName = simulatedModelName_cap cc,
                       charsPerToken = tokenCharsPerToken cc,
                       requestFixedFeeUSD = requestFixedFeeUSD_cap cc,
                       discountFactor = discountFactor_cap cc\<rparr>) = Num t" "0 \<le> t"
    by blast
  from variance_total_nonneg [OF assms(3) this] show ?thesis
    unfolding c .
qed

lemma score_candidate_number:
  assumes "score_candidate pb tel mt opts p vr jr = Some s"
    and "\<And>c. candidate_cost pb opts p vr = Some c \<Longrightarrow> \<exists>t. totalUSD c = Num t"
  shows "score s \<noteq> NaN"
proof (cases "candidate_cost pb opts p vr")
  case None
  with assms(1) show ?thesis
    by (auto simp: score_candidate_def Let_def split: if_splits option.splits)
next
  case (Some c)
  from assms(2) [OF Some] obtain t where "totalUSD c = Num t" ..
  with Some assms(1) show ?thesis
    by (auto simp: score_candidate_def Let_def split: if_splits option.splits)
qed

lemma select_loop_costs:
  assumes "s \<in> set (fst (select_loop pb tel mt opts env i ps cb))"
    and "wf_prices pb" and "\<forall>p \<in> set ps. wf_provider pb p" and "wf_draws env"
  shows "score s \<noteq> NaN \<and> (\<forall>c. costEstimate s = Some c \<longrightarrow> (\<exists>t. totalUSD c = Num t \<and> 0 \<le> t))"
  using assms(1,3)
proof (induction ps arbitrary: i cb)
  case Nil
  then show ?case by simp
next
  case (Cons p ps)
  obtain b cb1 where io: "isOpen (now_sel env i) cb (provider p) mt = (b, cb1)"
    by (cases "isOpen (now_sel env i) cb (provider p) mt")
  obtain rest cb2 where rec: "select_loop pb tel mt opts env (Suc i) ps cb1 = (rest, cb2)"
    by (cases "select_loop pb tel mt opts env (Suc i) ps cb1")
  from Cons.prems(2) have wp: "wf_provider pb p" and wps: "\<forall>p \<in> set ps. wf_provider pb p"
    by simp_all
  have ih: "s \<in> set rest \<Longrightarrow> ?case"
    using Cons.IH [of "Suc i" cb1] rec wps by simp
  have r0: "0 \<le> variance_rnd env i" using assms(4) by (simp add: wf_draws_def)
  show ?case
  proof (cases "score_candidate pb tel mt opts p (variance_rnd env i) (jitter_rnd env i)")
    case None
    with Cons.prems(1) io rec have "s \<in> set rest" by (cases b) simp_all
    then show ?thesis by (rule ih)
  next
    case (Some s0)
    with Cons.prems(1) io rec have "s = s0 \<or> s \<in> set rest" by (cases b) auto
    then show ?thesis
    proof
      assume eq: "s = s0"
      have ce: "costEstimate s0 = candidate_cost pb opts p (variance_rnd env i)"
        by (rule score_candidate_Some(2) [OF Some])
      have nn: "\<And>c. candidate_cost pb opts p (variance_rnd env i) = Some c
                  \<Longrightarrow> \<exists>t. totalUSD c = Num t \<and> 0 \<le> t"
        by (rule candidate_cost_nonneg [OF assms(2) wp r0])
      have "score s0 \<noteq> NaN"
        by (rule score_candidate_number [OF Some]) (use nn in blast)
      with ce nn eq show ?thesis by simp
    next
      assume "s \<in> set rest"
      then show ?thesis by (rule ih)
    qed
  qed
qed

lemma select_costs_nonneg:
  assumes wf: "wf_prices pb" "\<forall>p \<in> set ps. wf_provider pb p" "wf_draws env"
    and s: "s \<in> set (fst (select pb tel cb env mt ps opts))"
    and c: "costEstimate s = Some c"
  shows "\<exists>t. totalUSD c = Num t \<and> 0 \<le> t"
proof -
  obtain scored cb1 where l: "select_loop pb tel mt opts env 0 ps cb = (scored, cb1)"
    by (cases "select_loop pb tel mt opts env 0 ps cb")
  have all: "\<And>x. x \<in> set scored \<Longrightarrow>
      score x \<noteq> NaN \<and> (\<forall>c. costEstimate x = Some c \<longrightarrow> (\<exists>t. totalUSD c = Num t \<and> 0 \<le> t))"
    using select_loop_costs [of _ pb tel mt opts env 0 ps cb, OF _ wf] l by simp
  then have "list_all (\<lambda>s. score s \<noteq> NaN) scored"
    by (simp add: list_all_iff)
  then have "set (sort_scored env scored) = set scored"
    by (intro set_sort_scored) simp
  with s have "s \<in> set scored" by (simp add: select_def l)
  from all [OF this] c show ?thesis by simp
qed

text \<open>
  Claim C2, amended. For every dispatch: a dispatch that ends in an error leaves the
  spent amount unchanged. A dispatch that ends in success adds to it exactly the
  \<open>totalUSD\<close> of the cost estimate it returns, and nothing when it returns none; for
  a registry built by \<open>registerModel\<close> and \<open>clear\<close>, and an engine whose \<open>sort\<close> returns
  the elements of the array, that estimate is the one of the selected candidate: the
  entry of the ranking at the position \<open>j\<close> of the first attempt whose handler call
  succeeded, all attempts before it having failed. And the spent amount, when it is a
  number, stays a number and does not decrease, provided the cost parameters are in
  their ranges: rates and fees not negative, \<open>tokenCharsPerToken\<close> positive, discount
  factor not negative, no model name that only \<open>Object.prototype\<close> knows. The code does
  not check these ranges, and without them the spent amount can decrease.
\<close>

theorem dispatch_ledger:
  assumes "useModelWithInfo pb reg env r mt params policyOptions providerHint = (res, r1)"
  shows "(\<forall>e. res = Inl e \<longrightarrow> sessionSpent r1 = sessionSpent r)
       \<and> (\<forall>ok. res = Inr ok \<longrightarrow>
            sessionSpent r1 = charged (sessionSpent r) (costEstimate_ok ok)
          \<and> (registered reg \<and> conforming_sort (sel_env env) \<longrightarrow>
               (\<exists>j < length (fst (dispatch_ranking pb reg env r mt params policyOptions
                                    providerHint)).
                   int j \<le> maxRetries r
                 \<and> (\<forall>i < j. \<exists>e. attempt_outcome env r i = Inl e)
                 \<and> attempt_outcome env r j = Inr (result_ok ok)
                 \<and> provider_ok ok =
                     provider (provider_sp (fst (dispatch_ranking pb reg env r mt params
                                                   policyOptions providerHint) ! j))
                 \<and> costEstimate_ok ok =
                     costEstimate (fst (dispatch_ranking pb reg env r mt params
                                          policyOptions providerHint) ! j))))
       \<and> (wf_prices pb \<and> (\<forall>p \<in> set (candidates_for reg mt providerHint). wf_provider pb p) \<and>
          wf_draws (sel_env env) \<longrightarrow>
            (\<forall>x. sessionSpent r = Num x \<longrightarrow> (\<exists>y. sessionSpent r1 = Num y \<and> x \<le> y)))"
proof (cases "candidates_for reg mt providerHint = []")
  case True
  with assms show ?thesis by (auto simp: useModelWithInfo_def)
next
  case ne: False
  obtain scored cb1 where sel:
    "select pb (telemetry r) (circuit r) (sel_env env) mt (candidates_for reg mt providerHint)
       (ranking_options r params policyOptions) = (scored, cb1)"
    by (cases "select pb (telemetry r) (circuit r) (sel_env env) mt
                 (candidates_for reg mt providerHint) (ranking_options r params policyOptions)")
  have rk: "fst (dispatch_ranking pb reg env r mt params policyOptions providerHint) = scored"
    by (simp add: dispatch_ranking_def sel)
  show ?thesis
  proof (cases "scored = []")
    case True
    with assms ne sel show ?thesis by (auto simp: useModelWithInfo_def)
  next
    case False
    define r0 where "r0 = r\<lparr>circuit := cb1\<rparr>"
    have same: "sessionSpent r0 = sessionSpent r" "maxRetries r0 = maxRetries r"
      "\<And>i. attempt_outcome env r0 i = attempt_outcome env r i"
      by (simp_all add: r0_def attempt_outcome_def)
    obtain lres r2 where al:
      "attempt_loop env mt scored 0 None (map provider_sp scored) r0 = (lres, r2)"
      by (cases "attempt_loop env mt scored 0 None (map provider_sp scored) r0")
    have r12: "r1 = r2"
      using assms ne sel False al
      by (cases lres) (auto simp: useModelWithInfo_def Let_def r0_def split: prod.splits)
    have res_l: "\<And>e. res = Inl e \<Longrightarrow> \<exists>x. lres = Inl x"
      using assms ne sel False al
      by (cases lres) (auto simp: useModelWithInfo_def Let_def r0_def split: prod.splits)
    have res_r: "\<And>ok. res = Inr ok \<Longrightarrow> lres = Inr ok"
      using assms ne sel False al
      by (cases lres) (auto simp: useModelWithInfo_def Let_def r0_def split: prod.splits)
    have err: "\<forall>e. res = Inl e \<longrightarrow> sessionSpent r1 = sessionSpent r"
    proof (intro allI impI)
      fix e assume "res = Inl e"
      from res_l [OF this] obtain x where "lres = Inl x" ..
      with al have "attempt_loop env mt scored 0 None (map provider_sp scored) r0 = (Inl x, r2)"
        by simp
      from attempt_loop_error [OF this] show "sessionSpent r1 = sessionSpent r"
        by (simp add: r12 same)
    qed
    have ok: "\<forall>ok. res = Inr ok \<longrightarrow>
            sessionSpent r1 = charged (sessionSpent r) (costEstimate_ok ok)
          \<and> (\<exists>s \<in> set scored. costEstimate_ok ok = None \<or> costEstimate_ok ok = costEstimate s)
          \<and> (registered reg \<and> conforming_sort (sel_env env) \<longrightarrow>
               (\<exists>j < length scored.
                   int j \<le> maxRetries r
                 \<and> (\<forall>i < j. \<exists>e. attempt_outcome env r i = Inl e)
                 \<and> attempt_outcome env r j = Inr (result_ok ok)
                 \<and> provider_ok ok = provider (provider_sp (scored ! j))
                 \<and> costEstimate_ok ok = costEstimate (scored ! j)))"
    proof (intro allI impI)
      fix ok assume "res = Inr ok"
      from res_r [OF this] al
      have "attempt_loop env mt scored 0 None (map provider_sp scored) r0 = (Inr ok, r2)"
        by simp
      from attempt_loop_success [OF this] obtain j where j: "j < length scored"
        "int j \<le> maxRetries r"
        "\<forall>i < j. \<exists>e. attempt_outcome env r i = Inl e"
        "attempt_outcome env r j = Inr (result_ok ok)"
        "provider_ok ok = provider (provider_sp (scored ! j))"
        "costEstimate_ok ok =
             (case find (\<lambda>s. provider_sp s = provider_sp (scored ! j)) scored of
                None \<Rightarrow> None | Some s \<Rightarrow> costEstimate s)"
        "sessionSpent r1 = charged (sessionSpent r) (costEstimate_ok ok)"
        unfolding same r12 by auto
      have mem: "\<exists>s \<in> set scored. costEstimate_ok ok = None \<or> costEstimate_ok ok = costEstimate s"
      proof (cases "find (\<lambda>s. provider_sp s = provider_sp (scored ! j)) scored")
        case None
        with j(6) False show ?thesis by (cases scored) auto
      next
        case (Some s)
        then have "s \<in> set scored" by (auto simp: find_Some_iff)
        with Some j(6) show ?thesis by auto
      qed
      have pin: "registered reg \<and> conforming_sort (sel_env env) \<longrightarrow>
               (\<exists>j < length scored.
                   int j \<le> maxRetries r
                 \<and> (\<forall>i < j. \<exists>e. attempt_outcome env r i = Inl e)
                 \<and> attempt_outcome env r j = Inr (result_ok ok)
                 \<and> provider_ok ok = provider (provider_sp (scored ! j))
                 \<and> costEstimate_ok ok = costEstimate (scored ! j))"
      proof
        assume h: "registered reg \<and> conforming_sort (sel_env env)"
        have "distinct (map provider_sp (fst (select pb (telemetry r) (circuit r) (sel_env env) mt
                 (candidates_for reg mt providerHint) (ranking_options r params policyOptions))))"
          by (rule select_distinct) (use h candidates_distinct in simp_all)
        then have "distinct (map provider_sp scored)" by (simp add: sel)
        from find_distinct_nth [OF this j(1)] j(6)
        have "costEstimate_ok ok = costEstimate (scored ! j)" by simp
        with j(1-5) show "\<exists>j < length scored.
                   int j \<le> maxRetries r
                 \<and> (\<forall>i < j. \<exists>e. attempt_outcome env r i = Inl e)
                 \<and> attempt_outcome env r j = Inr (result_ok ok)
                 \<and> provider_ok ok = provider (provider_sp (scored ! j))
                 \<and> costEstimate_ok ok = costEstimate (scored ! j)"
          by blast
      qed
      from j(7) mem pin
      show "sessionSpent r1 = charged (sessionSpent r) (costEstimate_ok ok)
          \<and> (\<exists>s \<in> set scored. costEstimate_ok ok = None \<or> costEstimate_ok ok = costEstimate s)
          \<and> (registered reg \<and> conforming_sort (sel_env env) \<longrightarrow>
               (\<exists>j < length scored.
                   int j \<le> maxRetries r
                 \<and> (\<forall>i < j. \<exists>e. attempt_outcome env r i = Inl e)
                 \<and> attempt_outcome env r j = Inr (result_ok ok)
                 \<and> provider_ok ok = provider (provider_sp (scored ! j))
                 \<and> costEstimate_ok ok = costEstimate (scored ! j)))"
        by blast
    qed
    have mono: "wf_prices pb \<and> (\<forall>p \<in> set (candidates_for reg mt providerHint). wf_provider pb p) \<and>
          wf_draws (sel_env env) \<longrightarrow>
            (\<forall>x. sessionSpent r = Num x \<longrightarrow> (\<exists>y. sessionSpent r1 = Num y \<and> x \<le> y))"
    proof (intro impI allI)
      fix x
      assume wf: "wf_prices pb \<and> (\<forall>p \<in> set (candidates_for reg mt providerHint). wf_provider pb p) \<and>
          wf_draws (sel_env env)"
        and x: "sessionSpent r = Num x"
      show "\<exists>y. sessionSpent r1 = Num y \<and> x \<le> y"
      proof (cases res)
        case (Inl e)
        with err x show ?thesis by simp
      next
        case (Inr okv)
        with ok obtain s where sp: "sessionSpent r1 = charged (sessionSpent r) (costEstimate_ok okv)"
          and s: "s \<in> set scored" "costEstimate_ok okv = None \<or> costEstimate_ok okv = costEstimate s"
          by blast
        show ?thesis
        proof (cases "costEstimate_ok okv")
          case None
          with sp x show ?thesis by (simp add: charged_def)
        next
          case (Some c)
          with s(2) have ce: "costEstimate s = Some c" by simp
          have m: "s \<in> set (fst (select pb (telemetry r) (circuit r) (sel_env env) mt
                    (candidates_for reg mt providerHint) (ranking_options r params policyOptions)))"
            using s(1) by (simp add: sel)
          have "\<exists>t. totalUSD c = Num t \<and> 0 \<le> t"
            by (rule select_costs_nonneg [OF _ _ _ m ce]) (use wf in simp_all)
          then obtain t where "totalUSD c = Num t" "0 \<le> t" by blast
          with Some sp x show ?thesis by (simp add: charged_def)
        qed
      qed
    qed
    from err ok mono show ?thesis
      unfolding rk by blast
  qed
qed

text \<open>
  Dispatches on a router with a budget of 1 USD. The registry with two registrations
  named \<open>A\<close> ranks the one without a cost block first; when its handler fails and the
  handler of the second answers, the second one's estimate is charged.
\<close>

lemmas dispatch_eval = useModelWithInfo_def dispatch_ranking_def select_eval candidates_for_def
  getProviders_def registerModel_def ranking_options_def derived_promptLength_def
  hello_params_def funded_router_def new_Router_def default_router_options_def
  onFailure_def onSuccess_def fresh_entry_def resolving_env_def rejecting_env_def
  second_try_env_def withTimeout_def record_tel_def twin_registry_def rebate_registry_def
  rebate_caps_def costed_caps_def plain_caps_def new_ModelRegistry_def charged_def
  attempt_outcome_def ranked_names_def ranked_totals_def

lemma twin_registered: "registered twin_registry"
  unfolding twin_registry_def by (intro g_registerModel g_new)

lemma twin_env: "conforming_sort (sel_env second_try_env)" "wf_draws (sel_env second_try_env)"
  "conforming_sort (sel_env rejecting_env)"
  by (simp_all add: conforming_sort_def wf_draws_def second_try_env_def rejecting_env_def
        still_env_def)

lemma wf_example_book: "wf_prices example_book"
  by (simp add: wf_prices_def wf_costs_def example_book_def)

lemma twin_wf: "\<forall>p \<in> set (candidates_for twin_registry ''T'' None). wf_provider example_book p"
  by (simp add: candidates_for_def getProviders_def twin_registry_def registerModel_def
        new_ModelRegistry_def wf_provider_def wf_cost_caps_def costed_caps_def plain_caps_def
        costs_at_def example_book_def object_prototype_names_def)

lemma twin_ranking:
  "ranked_names (fst (dispatch_ranking example_book twin_registry second_try_env funded_router
       ''T'' hello_params no_options None)) = [''A'', ''A'']"
  "ranked_totals (fst (dispatch_ranking example_book twin_registry second_try_env funded_router
       ''T'' hello_params no_options None)) = [None, Some (Num 0.00000105)]"
  by (simp_all add: dispatch_eval)

lemma twin_attempts:
  "attempt_outcome second_try_env funded_router 0 = Inl (HandlerError ''Error'' ''boom'')"
  "attempt_outcome second_try_env funded_router 1 = Inr (JStr ''ok'')"
  by (simp_all add: attempt_outcome_def second_try_env_def withTimeout_def)

lemma twin_success:
  "map_sum id provider_ok (fst (useModelWithInfo example_book twin_registry second_try_env
       funded_router ''T'' hello_params no_options None)) = Inr ''A''"
  by (simp add: dispatch_eval)

lemma twin_failure:
  "fst (useModelWithInfo example_book twin_registry rejecting_env funded_router ''T''
          hello_params no_options None) =
     Inl (AttemptsFailed (HandlerError ''Error'' ''boom'') [''A'', ''A''] ''A'')"
  by (simp add: dispatch_eval)

theorem dispatch_ledger_witness:
  "ranked_totals (fst (dispatch_ranking example_book twin_registry second_try_env funded_router
       ''T'' hello_params no_options None)) = [None, Some (Num 0.00000105)]
 \<and> map_sum id costEstimate_ok (fst (useModelWithInfo example_book twin_registry second_try_env
       funded_router ''T'' hello_params no_options None))
     = Inr (costEstimate (fst (dispatch_ranking example_book twin_registry second_try_env
              funded_router ''T'' hello_params no_options None) ! 1))
 \<and> sessionSpent funded_router = Num 0
 \<and> sessionSpent (snd (useModelWithInfo example_book twin_registry second_try_env funded_router
       ''T'' hello_params no_options None)) = Num 0.00000105
 \<and> sessionSpent (snd (useModelWithInfo example_book twin_registry rejecting_env funded_router
       ''T'' hello_params no_options None)) = sessionSpent funded_router"
proof -
  let ?U = "useModelWithInfo example_book twin_registry second_try_env funded_router
          ''T'' hello_params no_options None"
  let ?V = "useModelWithInfo example_book twin_registry rejecting_env funded_router
          ''T'' hello_params no_options None"
  let ?R = "fst (dispatch_ranking example_book twin_registry second_try_env funded_router
          ''T'' hello_params no_options None)"
  have u: "?U = (fst ?U, snd ?U)" and v: "?V = (fst ?V, snd ?V)" by simp_all
  from twin_success obtain ok where ok: "fst ?U = Inr ok"
    by (cases "fst ?U") auto
  have len: "length ?R = 2"
    using arg_cong [OF twin_ranking(1), of length] by (simp add: ranked_names_def)
  have z: "sessionSpent funded_router = Num 0"
    by (simp add: funded_router_def new_Router_def)
  from dispatch_ledger [OF u] ok twin_registered twin_env(1)
  obtain j where sp: "sessionSpent (snd ?U) = charged (sessionSpent funded_router) (costEstimate_ok ok)"
    and j: "j < length ?R" "attempt_outcome second_try_env funded_router j = Inr (result_ok ok)"
      "costEstimate_ok ok = costEstimate (?R ! j)"
    by blast
  have "j \<noteq> 0"
  proof
    assume "j = 0"
    with j(2) twin_attempts(1) show False by simp
  qed
  with j(1) len have j1: "j = 1" by simp
  have pin: "costEstimate_ok ok = costEstimate (?R ! 1)"
    using j(3) unfolding j1 .
  have "ranked_totals ?R ! 1 = map_option totalUSD (costEstimate (?R ! 1))"
    using len by (simp add: ranked_totals_def)
  then have tot: "map_option totalUSD (costEstimate_ok ok) = Some (Num 0.00000105)"
    using twin_ranking(2) pin by simp
  have a: "sessionSpent (snd ?U) = Num 0.00000105"
    using sp tot z by (auto simp: charged_def)
  from dispatch_ledger [OF u] wf_example_book twin_wf twin_env(2) z
  have b: "\<exists>y. sessionSpent (snd ?U) = Num y \<and> 0 \<le> y"
    by blast
  from dispatch_ledger [OF v] twin_failure
  have d: "sessionSpent (snd ?V) = sessionSpent funded_router"
    by auto
  from ok pin have c: "map_sum id costEstimate_ok (fst ?U) = Inr (costEstimate (?R ! 1))"
    by simp
  from twin_ranking(2) c z a b d show ?thesis by blast
qed

text \<open>
  A provider whose cost block has the discount factor \<open>-1\<close>: its estimate is negative,
  passes the budget ceiling, and a successful dispatch lowers the spent amount from
  \<open>0\<close> to \<open>-0.00000105\<close>.
\<close>

theorem dispatch_negative_discount_counterexample:
  "sessionSpent funded_router = Num 0
 \<and> map_sum id (\<lambda>ok. (provider_ok ok, map_option totalUSD (costEstimate_ok ok)))
     (fst (useModelWithInfo example_book rebate_registry resolving_env funded_router ''T''
        hello_params no_options None)) = Inr (''A'', Some (Num (- 0.00000105)))
 \<and> sessionSpent (snd (useModelWithInfo example_book rebate_registry resolving_env
        funded_router ''T'' hello_params no_options None)) = Num (- 0.00000105)
 \<and> jgt (sessionSpent funded_router)
        (sessionSpent (snd (useModelWithInfo example_book rebate_registry resolving_env
           funded_router ''T'' hello_params no_options None)))"
  by (simp add: dispatch_eval)

end
